theory Spec2Isabelle
  imports Complex_Main
begin

section \<open>Values, errors and graphs\<close>

text \<open>
  The Python sources (\<^verbatim>\<open>sigma/exact.py\<close>, \<^verbatim>\<open>sigma/simulation.py\<close>) are embedded as
  HOL functions. Every \<^verbatim>\<open>raise\<close> is a value \<open>Inl e\<close> of a sum type. Python floats
  and numpy arrays of floats are idealised as exact reals and lists of reals: rounding,
  infinities and NaN are outside the model.
\<close>

datatype error = TypeError | ValueError | IndexError | ZeroDivisionError | NetworkXError

text \<open>
  The dynamically typed arguments that the code inspects with \<^verbatim>\<open>isinstance\<close>.
  \<^verbatim>\<open>bool\<close> is a subclass of \<^verbatim>\<open>int\<close> in Python, so \<open>PyBool\<close> passes
  \<^verbatim>\<open>isinstance(x, int)\<close>.
\<close>

datatype pyval = PyStr string | PyInt int | PyFloat real | PyBool bool | PyNone

fun is_str :: "pyval \<Rightarrow> bool" where
  "is_str (PyStr s) = True"
| "is_str v = False"

fun str_of :: "pyval \<Rightarrow> string" where
  "str_of (PyStr s) = s"
| "str_of v = []"

text \<open>\<^verbatim>\<open>isinstance(x, float) or isinstance(x, int)\<close>, with the number it denotes.\<close>

fun float_or_int :: "pyval \<Rightarrow> real option" where
  "float_or_int (PyFloat r) = Some r"
| "float_or_int (PyInt i) = Some (of_int i)"
| "float_or_int (PyBool t) = Some (if t then 1 else 0)"
| "float_or_int v = None"

text \<open>\<^verbatim>\<open>str.lower()\<close> on ASCII strings.\<close>

definition lower_char :: "char \<Rightarrow> char" where
  "lower_char ch =
     (let n = (of_char ch :: nat) in if 65 \<le> n \<and> n \<le> 90 then char_of (n + 32) else ch)"

definition lower :: "string \<Rightarrow> string" where
  "lower s = map lower_char s"

text \<open>
  A networkx graph on the nodes \<open>0, \<dots>, N - 1\<close> (the code indexes the state vector by
  node): for each node the list of its neighbours with the weight of the edge.
\<close>

type_synonym graph = "(nat \<times> real) list list"

definition number_of_nodes :: "graph \<Rightarrow> nat" where
  "number_of_nodes g = length g"

text \<open>\<^verbatim>\<open>list(nx.neighbors(G, n))\<close>; a node that is not in the graph raises.\<close>

definition neighbors :: "graph \<Rightarrow> nat \<Rightarrow> error + nat list" where
  "neighbors g n = (if n < length g then Inr (map fst (g ! n)) else Inl NetworkXError)"

text \<open>\<^verbatim>\<open>nx.degree(G, n)\<close>: the number of incident edges, a self-loop counted twice.\<close>

definition degree :: "graph \<Rightarrow> nat \<Rightarrow> nat" where
  "degree g n = length (g ! n) + (if n \<in> fst ` set (g ! n) then 1 else 0)"

section \<open>The simulation engine: \<^verbatim>\<open>Population\<close>\<close>

record population =
  p_structure :: graph
  p_population_size :: nat
  p_state :: "int list"
  p_social_good :: string
  p_b :: real
  p_c :: real
  p_mutation_rate :: real
  p_selection_intensity :: real

text \<open>\<^verbatim>\<open>Population.__init__\<close>, its checks in the order of the source.\<close>

definition init ::
  "graph \<Rightarrow> int list \<Rightarrow> pyval \<Rightarrow> real \<Rightarrow> real \<Rightarrow> pyval \<Rightarrow> pyval \<Rightarrow> error + population" where
  "init structure state social_good b c mutation_rate selection_intensity =
     (if length state \<noteq> number_of_nodes structure then Inl ValueError
      else if \<not> is_str social_good then Inl TypeError
      else if lower (str_of social_good) \<notin> set [''ff'', ''pp''] then Inl ValueError
      else (case float_or_int mutation_rate of
        None \<Rightarrow> Inl TypeError
      | Some mu \<Rightarrow>
          if mu < 0 \<or> mu > 1 then Inl ValueError
          else (case float_or_int selection_intensity of
            None \<Rightarrow> Inl TypeError
          | Some si \<Rightarrow>
              if si < 0 then Inl ValueError
              else Inr \<lparr>p_structure = structure,
                        p_population_size = number_of_nodes structure,
                        p_state = state,
                        p_social_good = lower (str_of social_good),
                        p_b = b, p_c = c,
                        p_mutation_rate = mu,
                        p_selection_intensity = si\<rparr>)))"

text \<open>
  The inputs the specification calls valid, with the two labels read up to letter case
  (the constructor lower-cases the label before it compares).
\<close>

definition valid_inputs :: "graph \<Rightarrow> int list \<Rightarrow> pyval \<Rightarrow> pyval \<Rightarrow> pyval \<Rightarrow> bool" where
  "valid_inputs structure state social_good mutation_rate selection_intensity =
     (length state = length structure
      \<and> is_str social_good
      \<and> (lower (str_of social_good) = ''ff'' \<or> lower (str_of social_good) = ''pp'')
      \<and> (case float_or_int mutation_rate of None \<Rightarrow> False | Some mu \<Rightarrow> 0 \<le> mu \<and> mu \<le> 1)
      \<and> (case float_or_int selection_intensity of None \<Rightarrow> False | Some si \<Rightarrow> 0 \<le> si))"

definition path2 :: graph where
  "path2 = [[(1, 1)], [(0, 1)]]"

text \<open>Sequencing of computations that may raise.\<close>

definition bind_err :: "error + 'a \<Rightarrow> ('a \<Rightarrow> error + 'b) \<Rightarrow> error + 'b" where
  "bind_err m f = (case m of Inl e \<Rightarrow> Inl e | Inr x \<Rightarrow> f x)"

text \<open>
  A networkx graph is undirected and keeps the neighbours of a node in a dictionary: its
  adjacency lists are duplicate-free, mention nodes of the graph only, and list \<open>i\<close>
  among the neighbours of \<open>k\<close> whenever they list \<open>k\<close> among those of \<open>i\<close>.
\<close>

definition wf_graph :: "graph \<Rightarrow> bool" where
  "wf_graph g =
     list_all (\<lambda>i. distinct (map fst (g ! i))
                  \<and> list_all (\<lambda>k. k < length g \<and> i \<in> set (map fst (g ! k))) (map fst (g ! i)))
       [0..<length g]"

definition no_isolated_nodes :: "graph \<Rightarrow> bool" where
  "no_isolated_nodes g = list_all (\<lambda>adj. adj \<noteq> []) g"

subsection \<open>\<^verbatim>\<open>mean_frequency\<close>\<close>

text \<open>
  The trait is an integer or \<^verbatim>\<open>None\<close> (the default of \<^verbatim>\<open>update_population\<close>); no
  state equals \<^verbatim>\<open>None\<close>. Python's \<^verbatim>\<open>/\<close> on two ints raises on a zero divisor.
\<close>

definition mean_frequency :: "population \<Rightarrow> int option \<Rightarrow> error + real" where
  "mean_frequency pop trait =
     (if p_population_size pop = 0 then Inl ZeroDivisionError
      else Inr (real (length (filter (\<lambda>val. Some val = trait) (p_state pop)))
                / real (p_population_size pop)))"

subsection \<open>\<^verbatim>\<open>payoff\<close>\<close>

text \<open>\<^verbatim>\<open>self._state[i]\<close> as a number.\<close>

definition state_at :: "population \<Rightarrow> nat \<Rightarrow> error + real" where
  "state_at pop i =
     (if i < length (p_state pop) then Inr (of_int (p_state pop ! i)) else Inl IndexError)"

text \<open>
  \<^verbatim>\<open>nx.degree\<close> of a node of the graph. (The adjacency lists of the model can name a node
  that the graph does not have, which networkx cannot; the model raises there.)
\<close>

definition degree_of :: "graph \<Rightarrow> nat \<Rightarrow> error + nat" where
  "degree_of g n = (if n < length g then Inr (degree g n) else Inl NetworkXError)"

text \<open>The two list comprehensions under \<^verbatim>\<open>sum\<close>, element by element.\<close>

fun ff_terms :: "population \<Rightarrow> nat list \<Rightarrow> error + real list" where
  "ff_terms pop [] = Inr []"
| "ff_terms pop (neighbor # rest) =
     bind_err (state_at pop neighbor) (\<lambda>s.
     bind_err (degree_of (p_structure pop) neighbor) (\<lambda>dg.
       if dg = 0 then Inl ZeroDivisionError
       else bind_err (ff_terms pop rest) (\<lambda>ts. Inr (s * (p_b pop / real dg) # ts))))"

fun pp_terms :: "population \<Rightarrow> nat list \<Rightarrow> error + real list" where
  "pp_terms pop [] = Inr []"
| "pp_terms pop (neighbor # rest) =
     bind_err (state_at pop neighbor) (\<lambda>s.
     bind_err (pp_terms pop rest) (\<lambda>ts. Inr (s * p_b pop # ts)))"

text \<open>The value the loop body assigns for one individual.\<close>

definition individual_payoff :: "population \<Rightarrow> nat \<Rightarrow> error + real" where
  "individual_payoff pop individual =
     bind_err (neighbors (p_structure pop) individual) (\<lambda>nbrs.
       if p_social_good pop = ''ff'' then
         bind_err (state_at pop individual) (\<lambda>s.
         bind_err (ff_terms pop nbrs) (\<lambda>ts.
           Inr (s * (- p_c pop) + sum_list ts)))
       else
         bind_err (state_at pop individual) (\<lambda>s.
         bind_err (degree_of (p_structure pop) individual) (\<lambda>dg.
         bind_err (pp_terms pop nbrs) (\<lambda>ts.
           Inr (s * (- p_c pop * real dg) + sum_list ts)))))"

text \<open>\<^verbatim>\<open>subset.index(individual)\<close>: the first position of the individual.\<close>

fun index_of :: "'a list \<Rightarrow> 'a \<Rightarrow> nat" where
  "index_of [] x = 0"
| "index_of (y # ys) x = (if x = y then 0 else Suc (index_of ys x))"

text \<open>The loop over the subset, writing into the array \<^verbatim>\<open>payoffs\<close>.\<close>

fun payoff_loop :: "population \<Rightarrow> nat list \<Rightarrow> nat list \<Rightarrow> real list \<Rightarrow> error + real list" where
  "payoff_loop pop sub_set [] payoffs = Inr payoffs"
| "payoff_loop pop sub_set (individual # rest) payoffs =
     bind_err (individual_payoff pop individual) (\<lambda>v.
       payoff_loop pop sub_set rest (payoffs[index_of sub_set individual := v]))"

definition payoff :: "population \<Rightarrow> nat list \<Rightarrow> error + real list" where
  "payoff pop sub_set = payoff_loop pop sub_set sub_set (replicate (length sub_set) 0)"

text \<open>
  The payoff of node \<open>i\<close> as the specification writes it, with \<open>N(i)\<close> the neighbour list
  and \<open>degree\<close> the networkx degree.
\<close>

definition nbrs_of :: "graph \<Rightarrow> nat \<Rightarrow> nat list" where
  "nbrs_of g i = map fst (g ! i)"

definition payoff_spec :: "population \<Rightarrow> nat \<Rightarrow> real" where
  "payoff_spec pop i =
     (if p_social_good pop = ''ff'' then
        - p_c pop * of_int (p_state pop ! i)
        + (\<Sum>k\<leftarrow>nbrs_of (p_structure pop) i.
             of_int (p_state pop ! k) * p_b pop / real (degree (p_structure pop) k))
      else
        - p_c pop * real (degree (p_structure pop) i) * of_int (p_state pop ! i)
        + (\<Sum>k\<leftarrow>nbrs_of (p_structure pop) i. of_int (p_state pop ! k) * p_b pop))"

text \<open>A population as the constructor makes it, on a graph as networkx keeps it.\<close>

definition wf_population :: "population \<Rightarrow> bool" where
  "wf_population pop =
     (wf_graph (p_structure pop)
      \<and> p_population_size pop = length (p_structure pop)
      \<and> length (p_state pop) = length (p_structure pop)
      \<and> (p_social_good pop = ''ff'' \<or> p_social_good pop = ''pp'')
      \<and> 0 \<le> p_mutation_rate pop \<and> p_mutation_rate pop \<le> 1
      \<and> 0 \<le> p_selection_intensity pop)"

text \<open>A triangle with a pendant node, and a population on it.\<close>

definition paw :: graph where
  "paw = [[(1, 1), (2, 1)], [(0, 1), (2, 1)], [(0, 1), (1, 1), (3, 1)], [(2, 1)]]"

definition paw_pop :: "string \<Rightarrow> population" where
  "paw_pop good = \<lparr>p_structure = paw, p_population_size = 4, p_state = [1, 0, 1, 1],
     p_social_good = good, p_b = 2, p_c = 1, p_mutation_rate = 1 / 10,
     p_selection_intensity = 1 / 10\<rparr>"


subsection \<open>Random choices\<close>

text \<open>
  The code draws from numpy's global generator. A randomised computation is modelled by
  the list of its outcomes, each a result or an error with its probability. The three
  numpy calls the engine makes are modelled from numpy's documentation:
  \<^verbatim>\<open>randint(n)\<close> is uniform on \<open>0, \<dots>, n - 1\<close> and raises for \<open>n = 0\<close>;
  \<^verbatim>\<open>choice(a, p=p)\<close> returns \<open>a[k]\<close> with probability \<open>p[k]\<close> and raises unless \<open>a\<close> is
  non-empty and \<open>p\<close> is a probability vector of the same length;
  \<^verbatim>\<open>rand() < t\<close> holds with probability \<open>t\<close> clipped to \<open>[0, 1]\<close>.
\<close>

type_synonym 'a rand = "((error + 'a) \<times> real) list"

definition return_r :: "'a \<Rightarrow> 'a rand" where
  "return_r x = [(Inr x, 1)]"

definition raise_r :: "error \<Rightarrow> 'a rand" where
  "raise_r e = [(Inl e, 1)]"

definition lift_r :: "error + 'a \<Rightarrow> 'a rand" where
  "lift_r m = [(m, 1)]"

definition weigh :: "real \<Rightarrow> 'a rand \<Rightarrow> 'a rand" where
  "weigh w m = map (\<lambda>(r, v). (r, w * v)) m"

definition bind_r :: "'a rand \<Rightarrow> ('a \<Rightarrow> 'b rand) \<Rightarrow> 'b rand" where
  "bind_r m f =
     concat (map (\<lambda>(r, w). case r of Inl e \<Rightarrow> [(Inl e, w)] | Inr x \<Rightarrow> weigh w (f x)) m)"

definition randint :: "nat \<Rightarrow> nat rand" where
  "randint n =
     (if n = 0 then raise_r ValueError else map (\<lambda>i. (Inr i, 1 / real n)) [0..<n])"

definition choice :: "'a list \<Rightarrow> real list \<Rightarrow> 'a rand" where
  "choice a p =
     (if a = [] \<or> length p \<noteq> length a \<or> \<not> list_all (\<lambda>x. 0 \<le> x) p \<or> sum_list p \<noteq> 1
      then raise_r ValueError
      else map2 (\<lambda>x w. (Inr x, w)) a p)"

definition rand_less :: "real \<Rightarrow> bool rand" where
  "rand_less t = [(Inr True, min 1 (max 0 t)), (Inr False, 1 - min 1 (max 0 t))]"

subsection \<open>\<^verbatim>\<open>update_population\<close>\<close>

text \<open>\<^verbatim>\<open>np.max\<close> raises on an empty array.\<close>

definition np_max :: "real list \<Rightarrow> error + real" where
  "np_max xs = (if xs = [] then Inl ValueError else Inr (Max (set xs)))"

text \<open>\<^verbatim>\<open>self._state[death] = v\<close>, where \<open>v\<close> is computed from \<^verbatim>\<open>self._state[birth]\<close>.\<close>

definition replace_state :: "population \<Rightarrow> nat \<Rightarrow> nat \<Rightarrow> (int \<Rightarrow> int) \<Rightarrow> error + population" where
  "replace_state pop death birth f =
     (if birth < length (p_state pop) \<and> death < length (p_state pop)
      then Inr (pop\<lparr>p_state := (p_state pop)[death := f (p_state pop ! birth)]\<rparr>)
      else Inl IndexError)"

text \<open>
  The loop over \<^verbatim>\<open>range(0, number_of_updates)\<close>; \<^verbatim>\<open>mean_frequencies\<close> is the array allocated
  before the loop.
\<close>

fun update_loop ::
  "population \<Rightarrow> int option \<Rightarrow> nat list \<Rightarrow> real list \<Rightarrow> (population \<times> real list) rand" where
  "update_loop pop trait [] mean_frequencies = return_r (pop, mean_frequencies)"
| "update_loop pop trait (update # rest) mean_frequencies =
     bind_r (randint (p_population_size pop)) (\<lambda>death.
     bind_r (lift_r (neighbors (p_structure pop) death)) (\<lambda>nbrs.
     bind_r (lift_r (payoff pop nbrs)) (\<lambda>neighbor_payoffs.
     bind_r (lift_r (np_max neighbor_payoffs)) (\<lambda>top.
       let neighbor_fitness =
             map (\<lambda>x. exp (p_selection_intensity pop * (x - top))) neighbor_payoffs
       in
     bind_r (choice nbrs (map (\<lambda>x. x / sum_list neighbor_fitness) neighbor_fitness)) (\<lambda>birth.
     bind_r (rand_less (p_mutation_rate pop / 2)) (\<lambda>mutate.
     bind_r (lift_r (replace_state pop death birth (\<lambda>s. if mutate then 1 - s else s))) (\<lambda>pop'.
     bind_r (lift_r (mean_frequency pop' trait)) (\<lambda>freq.
       update_loop pop' trait rest (mean_frequencies[update := freq])))))))))"

definition update_population ::
  "population \<Rightarrow> int option \<Rightarrow> nat \<Rightarrow> (population \<times> real list option) rand" where
  "update_population pop trait number_of_updates =
     bind_r (update_loop pop trait [0..<number_of_updates] (replicate number_of_updates 0))
       (\<lambda>(pop', mean_frequencies).
          return_r (pop', if trait \<noteq> None then Some mean_frequencies else None))"

text \<open>
  The death-birth step as the specification describes it: the death node uniform among
  the \<open>N\<close> nodes, the birth node among its neighbours with probability proportional to
  \<open>exp(\<delta>\<cdot>(payoff - max payoff))\<close>, the mutated trait with probability \<open>\<mu>/2\<close>.
\<close>

definition fitness :: "population \<Rightarrow> nat \<Rightarrow> nat \<Rightarrow> real" where
  "fitness pop death k =
     exp (p_selection_intensity pop
          * (payoff_spec pop k - Max (payoff_spec pop ` set (nbrs_of (p_structure pop) death))))"

definition birth_probability :: "population \<Rightarrow> nat \<Rightarrow> nat \<Rightarrow> real" where
  "birth_probability pop death birth =
     fitness pop death birth / (\<Sum>k\<leftarrow>nbrs_of (p_structure pop) death. fitness pop death k)"

definition with_state :: "population \<Rightarrow> nat \<Rightarrow> int \<Rightarrow> population" where
  "with_state pop death s = pop\<lparr>p_state := (p_state pop)[death := s]\<rparr>"

definition death_birth_step :: "population \<Rightarrow> (population \<times> real) list" where
  "death_birth_step pop =
     concat (map (\<lambda>death.
       concat (map (\<lambda>birth.
         [(with_state pop death (1 - p_state pop ! birth),
           1 / real (p_population_size pop)
             * (birth_probability pop death birth * (p_mutation_rate pop / 2))),
          (with_state pop death (p_state pop ! birth),
           1 / real (p_population_size pop)
             * (birth_probability pop death birth * (1 - p_mutation_rate pop / 2)))])
         (nbrs_of (p_structure pop) death)))
       [0..<p_population_size pop])"

text \<open>The fraction of nodes that hold the trait.\<close>

definition frequency :: "population \<Rightarrow> int \<Rightarrow> real" where
  "frequency pop t = real (length (filter (\<lambda>s. s = t) (p_state pop))) / real (length (p_state pop))"

text \<open>
  \<open>n\<close> death-birth steps, each followed by an observation of the mean frequency: the
  final population and the sequence of observations, with the probability of the run.
\<close>

fun death_birth_runs :: "population \<Rightarrow> int \<Rightarrow> nat \<Rightarrow> ((population \<times> real list) \<times> real) list" where
  "death_birth_runs pop t 0 = [((pop, []), 1)]"
| "death_birth_runs pop t (Suc n) =
     concat (map (\<lambda>(pop', w).
       map (\<lambda>((pop'', fs), v). ((pop'', frequency pop' t # fs), w * v)) (death_birth_runs pop' t n))
       (death_birth_step pop))"

subsection \<open>\<^verbatim>\<open>run_simulations\<close>\<close>

text \<open>
  \<^verbatim>\<open>np.random.randint(0, 2, n)\<close>: \<open>n\<close> independent uniform bits.
\<close>

fun random_state :: "nat \<Rightarrow> int list rand" where
  "random_state 0 = return_r []"
| "random_state (Suc n) =
     bind_r (randint 2) (\<lambda>x.
     bind_r (random_state n) (\<lambda>xs. return_r (int x # xs)))"

text \<open>
  \<^verbatim>\<open>np.mean\<close>: of \<^verbatim>\<open>None\<close> (what \<^verbatim>\<open>update_population\<close> returns without a trait) it raises a
  TypeError; of an empty array it is \<^verbatim>\<open>nan\<close>, with a warning.
\<close>

datatype np_float = Float real | NaN

definition np_mean :: "real list option \<Rightarrow> error + np_float" where
  "np_mean a =
     (case a of
        None \<Rightarrow> Inl TypeError
      | Some xs \<Rightarrow> if xs = [] then Inr NaN else Inr (Float (sum_list xs / real (length xs))))"

text \<open>
  The mutation rates are a numpy array of floats. The flag \<^verbatim>\<open>verbose\<close> only prints and is
  left out.
\<close>

definition run_single_simulation ::
  "graph \<Rightarrow> pyval \<Rightarrow> real \<Rightarrow> real \<Rightarrow> pyval \<Rightarrow> nat \<Rightarrow> int option \<Rightarrow> real \<Rightarrow> np_float rand" where
  "run_single_simulation structure social_good b c selection_intensity number_of_updates trait
       mutation_rate =
     bind_r (random_state (number_of_nodes structure)) (\<lambda>state.
     bind_r (lift_r (init structure state social_good b c (PyFloat mutation_rate)
                       selection_intensity)) (\<lambda>pop.
     bind_r (update_population pop trait number_of_updates) (\<lambda>(pop', mean_frequencies).
       lift_r (np_mean mean_frequencies))))"

text \<open>
  \<^verbatim>\<open>Parallel(n_jobs)(delayed(f)(x) for x in xs)\<close>, modelled from joblib's documentation:
  the list of the results in the order of the inputs, whatever the order in which the
  tasks complete; an exception raised in a task is raised by the call. The tasks are
  independent, so the model runs them in the order of the inputs.
\<close>

fun parallel_r :: "('a \<Rightarrow> 'b rand) \<Rightarrow> 'a list \<Rightarrow> 'b list rand" where
  "parallel_r f [] = return_r []"
| "parallel_r f (x # xs) =
     bind_r (f x) (\<lambda>y.
     bind_r (parallel_r f xs) (\<lambda>ys. return_r (y # ys)))"

definition run_simulations ::
  "graph \<Rightarrow> pyval \<Rightarrow> real \<Rightarrow> real \<Rightarrow> real list \<Rightarrow> pyval \<Rightarrow> nat \<Rightarrow> int option
     \<Rightarrow> np_float list rand" where
  "run_simulations structure social_good b c mutation_rates selection_intensity
       number_of_updates trait =
     parallel_r (run_single_simulation structure social_good b c selection_intensity
                   number_of_updates trait) mutation_rates"

definition path2_pop :: population where
  "path2_pop = \<lparr>p_structure = path2, p_population_size = 2, p_state = [1, 0],
     p_social_good = ''ff'', p_b = 2, p_c = 1, p_mutation_rate = 1 / 2,
     p_selection_intensity = 1 / 10\<rparr>"

section \<open>Dense arrays\<close>

text \<open>
  A numpy array of numbers is a list of reals, a two-dimensional array (dense, or a scipy
  sparse matrix, whose storage format the model does not distinguish) a list of rows.
  The functions of \<^verbatim>\<open>exact.py\<close> are called on \<open>N \<times> N\<close> arrays and length-\<open>N\<close> vectors; what
  numpy does on arrays of other shapes (broadcasting, or a ValueError) is not modelled.
\<close>

type_synonym vec = "real list"
type_synonym matrix = "real list list"

definition nrows :: "matrix \<Rightarrow> nat" where
  "nrows M = length M"

definition ncols :: "matrix \<Rightarrow> nat" where
  "ncols M = (case M of [] \<Rightarrow> 0 | r # rs \<Rightarrow> length r)"

definition mat :: "nat \<Rightarrow> nat \<Rightarrow> (nat \<Rightarrow> nat \<Rightarrow> real) \<Rightarrow> matrix" where
  "mat r c f = map (\<lambda>i. map (\<lambda>j. f i j) [0..<c]) [0..<r]"

definition square :: "nat \<Rightarrow> matrix \<Rightarrow> bool" where
  "square N M = (length M = N \<and> list_all (\<lambda>r. length r = N) M)"

text \<open>\<^verbatim>\<open>M.T\<close>, \<^verbatim>\<open>A @ B\<close>, \<^verbatim>\<open>A + B\<close>, \<^verbatim>\<open>A - B\<close>, \<^verbatim>\<open>np.multiply(A, B)\<close>, \<^verbatim>\<open>np.diag(M)\<close>
  and \<^verbatim>\<open>np.sum(M)\<close>.\<close>

definition mat_T :: "matrix \<Rightarrow> matrix" where
  "mat_T M = mat (ncols M) (nrows M) (\<lambda>i j. M ! j ! i)"

definition mat_mul :: "matrix \<Rightarrow> matrix \<Rightarrow> matrix" where
  "mat_mul A B = mat (nrows A) (ncols B) (\<lambda>i j. \<Sum>k\<leftarrow>[0..<ncols A]. A ! i ! k * B ! k ! j)"

definition mat_add :: "matrix \<Rightarrow> matrix \<Rightarrow> matrix" where
  "mat_add A B = map2 (map2 (+)) A B"

definition mat_sub :: "matrix \<Rightarrow> matrix \<Rightarrow> matrix" where
  "mat_sub A B = map2 (map2 (-)) A B"

definition multiply :: "matrix \<Rightarrow> matrix \<Rightarrow> matrix" where
  "multiply A B = map2 (map2 (*)) A B"

definition diag :: "matrix \<Rightarrow> vec" where
  "diag M = map (\<lambda>i. M ! i ! i) [0..<min (nrows M) (ncols M)]"

definition np_sum :: "matrix \<Rightarrow> real" where
  "np_sum M = sum_list (map sum_list M)"

subsection \<open>\<^verbatim>\<open>frequency_derivative\<close>\<close>

definition frequency_derivative ::
  "matrix \<Rightarrow> matrix \<Rightarrow> matrix \<Rightarrow> matrix \<Rightarrow> real \<Rightarrow> real \<Rightarrow> pyval \<Rightarrow> error + real" where
  "frequency_derivative K1 K2 w A b c social_good =
     (if \<not> is_str social_good then Inl TypeError
      else if lower (str_of social_good) \<notin> set [''ff'', ''pp''] then Inl ValueError
      else if lower (str_of social_good) = ''ff'' then
        Inr ((1 / 2) * (sum_list (diag (mat_mul A (mat_sub K1 K2))) * b
                        - sum_list (diag (mat_mul (mat_T A) (mat_add K1 K2))) * c))
      else
        (let K1_pp = np_sum (multiply K1 w); K2_pp = np_sum (multiply K2 w)
         in Inr ((1 / 2) * ((K1_pp - K2_pp) * b - (K1_pp + K2_pp) * c))))"

text \<open>
  The two formulas of the specification, written out entry by entry:
  \<open>trace(A\<cdot>(K1 - K2))\<close> is \<open>\<Sum>i \<Sum>k A[i][k] \<cdot> (K1[k][i] - K2[k][i])\<close>,
  \<open>trace(A\<^sup>t\<cdot>(K1 + K2))\<close> is \<open>\<Sum>i \<Sum>k A[k][i] \<cdot> (K1[k][i] + K2[k][i])\<close>, and
  \<open>\<Sum>(K\<odot>w)\<close> is \<open>\<Sum>i \<Sum>j K[i][j] \<cdot> w[i][j]\<close>.
\<close>

definition additive_effect :: "nat \<Rightarrow> matrix \<Rightarrow> matrix \<Rightarrow> matrix \<Rightarrow> real \<Rightarrow> real \<Rightarrow> real" where
  "additive_effect N K1 K2 A b c =
     (1 / 2) * ((\<Sum>i<N. \<Sum>k<N. A ! i ! k * (K1 ! k ! i - K2 ! k ! i)) * b
               - (\<Sum>i<N. \<Sum>k<N. A ! k ! i * (K1 ! k ! i + K2 ! k ! i)) * c)"

definition weighted_total :: "nat \<Rightarrow> matrix \<Rightarrow> matrix \<Rightarrow> real" where
  "weighted_total N K w = (\<Sum>i<N. \<Sum>j<N. K ! i ! j * w ! i ! j)"

definition proportional_effect :: "nat \<Rightarrow> matrix \<Rightarrow> matrix \<Rightarrow> matrix \<Rightarrow> real \<Rightarrow> real \<Rightarrow> real" where
  "proportional_effect N K1 K2 w b c =
     (1 / 2) * ((weighted_total N K1 w - weighted_total N K2 w) * b
               - (weighted_total N K1 w + weighted_total N K2 w) * c)"

text \<open>Small concrete arrays on which the definitions are evaluated.\<close>

definition K1_ex :: matrix where "K1_ex = [[1, 2], [3, 4]]"
definition K2_ex :: matrix where "K2_ex = [[0, 1], [1, 0]]"
definition w_ex :: matrix where "w_ex = [[0, 2], [2, 0]]"
definition A_ex :: matrix where "A_ex = [[0, 1], [1, 0]]"

subsection \<open>\<^verbatim>\<open>random_walk_probabilities\<close>\<close>

text \<open>
  \<^verbatim>\<open>nx.adjacency_matrix\<close>: entry \<open>(i, j)\<close> is the weight of the edge between \<open>i\<close> and \<open>j\<close>, or
  0; networkx raises on a graph without nodes.
\<close>

definition weight :: "graph \<Rightarrow> nat \<Rightarrow> nat \<Rightarrow> real" where
  "weight g i j = (case map_of (g ! i) j of None \<Rightarrow> 0 | Some x \<Rightarrow> x)"

definition adjacency_matrix :: "graph \<Rightarrow> error + matrix" where
  "adjacency_matrix g =
     (if g = [] then Inl NetworkXError
      else Inr (mat (length g) (length g) (\<lambda>i j. weight g i j)))"

text \<open>
  \<open>w\<close> is a scipy sparse matrix, so \<^verbatim>\<open>np.sum(w, axis=1)\<close> is the column of the row sums and
  \<^verbatim>\<open>w.multiply\<close> scales row \<open>i\<close> by the reciprocal of its sum. On a row whose sum is 0
  numpy yields infinities where the model has \<open>1 / 0 = 0\<close>: the theorems below are about
  graphs whose nodes all have positive (weighted) degree.
\<close>

definition random_walk_probabilities :: "graph \<Rightarrow> error + (matrix \<times> matrix \<times> matrix \<times> vec)" where
  "random_walk_probabilities structure =
     bind_err (adjacency_matrix structure) (\<lambda>w.
       let A = mat (nrows w) (ncols w) (\<lambda>i j. w ! i ! j * (1 / sum_list (w ! i)));
           e = mat (ncols A) (nrows A) (\<lambda>i j. A ! j ! i / real (nrows A));
           d = map (\<lambda>k. \<Sum>i\<leftarrow>[0..<nrows e]. e ! i ! k) [0..<ncols e]
       in Inr (w, A, e, d))"

definition degree_positive :: "graph \<Rightarrow> bool" where
  "degree_positive g =
     list_all (\<lambda>i. 0 < (\<Sum>j\<leftarrow>[0..<length g]. weight g i j)) [0..<length g]"

text \<open>The adjacency matrix of the specification is non-negative: no edge has a negative weight.\<close>

definition nonneg_weights :: "graph \<Rightarrow> bool" where
  "nonneg_weights g = list_all (\<lambda>adj. list_all (\<lambda>x. 0 \<le> snd x) adj) g"

subsection \<open>Linear solvers\<close>

text \<open>
  \<^verbatim>\<open>scipy.sparse.linalg.spsolve\<close> and \<^verbatim>\<open>lsqr\<close> are library code: the model takes them as
  parameters \<open>spsolve\<close>, \<open>lsqr :: matrix \<Rightarrow> vec \<Rightarrow> vec\<close>. What the theorems assume of them is
  what the library documents, in exact arithmetic: the direct solver returns a solution
  of the system it is given, the least-squares solver a vector whose residual
  \<open>\<parallel>M x - b\<parallel>\<^sup>2\<close> is minimal.
\<close>

type_synonym solver = "matrix \<Rightarrow> vec \<Rightarrow> vec"

definition mat_vec :: "matrix \<Rightarrow> vec \<Rightarrow> vec" where
  "mat_vec M x = map (\<lambda>row. \<Sum>c\<leftarrow>[0..<length row]. row ! c * x ! c) M"

definition residual :: "matrix \<Rightarrow> vec \<Rightarrow> vec \<Rightarrow> real" where
  "residual M x b = (\<Sum>r\<leftarrow>[0..<length b]. (mat_vec M x ! r - b ! r)\<^sup>2)"

definition direct_ok :: "solver \<Rightarrow> matrix \<Rightarrow> vec \<Rightarrow> bool" where
  "direct_ok spsolve M b =
     (length (spsolve M b) = length b \<and> mat_vec M (spsolve M b) = b)"

definition least_squares_ok :: "solver \<Rightarrow> matrix \<Rightarrow> vec \<Rightarrow> bool" where
  "least_squares_ok lsqr M b =
     (length (lsqr M b) = length b
      \<and> (\<forall>y. length y = length b \<longrightarrow> residual M (lsqr M b) b \<le> residual M y b))"

subsection \<open>\<^verbatim>\<open>location_weights\<close>\<close>

definition eye :: "nat \<Rightarrow> matrix" where
  "eye n = mat n n (\<lambda>i j. if i = j then 1 else 0)"

text \<open>
  \<^verbatim>\<open>tilde_A\<close>: \<open>d\<close> is one-dimensional, so \<^verbatim>\<open>sp.csr_matrix(1/np.transpose(d))\<close> is a row and
  \<^verbatim>\<open>multiply\<close> scales column \<open>j\<close> of \<open>e\<^sup>t\<close> by \<open>1 / d[j]\<close>.
\<close>

definition tilde_A :: "matrix \<Rightarrow> vec \<Rightarrow> real \<Rightarrow> matrix" where
  "tilde_A e d mutation_rate =
     (let population_size = nrows e
      in mat population_size population_size
           (\<lambda>i j. eye population_size ! i ! j
                   - (1 - mutation_rate) * (mat_T e ! i ! j * (1 / d ! j))))"

definition location_weights :: "solver \<Rightarrow> matrix \<Rightarrow> vec \<Rightarrow> real \<Rightarrow> vec" where
  "location_weights spsolve e d mutation_rate =
     (let population_size = nrows e;
          tilde_v = spsolve (mat_T (tilde_A e d mutation_rate))
                      (replicate population_size (mutation_rate * 1 / real population_size))
      in map2 (/) tilde_v d)"

text \<open>
  The system of the specification, \<open>I - (1 - \<mu>)\<cdot>e\<^sup>t\<cdot>diag(1/d)\<close>, and its transpose
  \<open>I - (1 - \<mu>)\<cdot>diag(1/d)\<cdot>e\<close>, entry by entry.
\<close>

definition stated_system :: "nat \<Rightarrow> matrix \<Rightarrow> vec \<Rightarrow> real \<Rightarrow> matrix" where
  "stated_system N e d \<mu> =
     mat N N (\<lambda>i j. (if i = j then 1 else 0) - (1 - \<mu>) * (e ! j ! i / d ! j))"

definition transposed_system :: "nat \<Rightarrow> matrix \<Rightarrow> vec \<Rightarrow> real \<Rightarrow> matrix" where
  "transposed_system N e d \<mu> =
     mat N N (\<lambda>i j. (if i = j then 1 else 0) - (1 - \<mu>) * (e ! i ! j / d ! i))"

text \<open>The path on three nodes, and a solver that answers the one system asked of it.\<close>

definition path3 :: graph where
  "path3 = [[(1, 1)], [(0, 1), (2, 1)], [(1, 1)]]"

definition e_path3 :: matrix where
  "e_path3 = [[0, 1 / 6, 0], [1 / 3, 0, 1 / 3], [0, 1 / 6, 0]]"

definition d_path3 :: vec where
  "d_path3 = [1 / 3, 1 / 3, 1 / 3]"

definition spsolve_path3 :: solver where
  "spsolve_path3 M b = [5 / 18, 4 / 9, 5 / 18]"

text \<open>
  The vector \<open>N\<cdot>(v \<odot> d)\<cdot>(I - (1 - \<mu>)\<cdot>A)\<close> of the specification's invariant, entry by entry.
\<close>

definition walk_image :: "nat \<Rightarrow> vec \<Rightarrow> vec \<Rightarrow> matrix \<Rightarrow> real \<Rightarrow> vec" where
  "walk_image N v d A \<mu> =
     map (\<lambda>j. \<Sum>i\<leftarrow>[0..<N]. real N * (v ! i * d ! i) * ((if i = j then 1 else 0) - (1 - \<mu>) * A ! i ! j))
       [0..<N]"

subsection \<open>\<^verbatim>\<open>identity_by_state_probabilities\<close>\<close>

text \<open>\<^verbatim>\<open>sp.kron(A, B)\<close> and the product of a matrix with a number.\<close>

definition kron :: "matrix \<Rightarrow> matrix \<Rightarrow> matrix" where
  "kron A B =
     mat (nrows A * nrows B) (ncols A * ncols B)
       (\<lambda>r c. A ! (r div nrows B) ! (c div ncols B) * B ! (r mod nrows B) ! (c mod ncols B))"

definition scale :: "real \<Rightarrow> matrix \<Rightarrow> matrix" where
  "scale a M = map (map ((*) a)) M"

text \<open>
  The loop that overrides the equation of each pair \<open>(i, i)\<close>: the stored entries of the row
  are set to 0, the diagonal entry and the right-hand side to 1.
\<close>

fun boundary_loop :: "nat \<Rightarrow> nat list \<Rightarrow> matrix \<times> vec \<Rightarrow> matrix \<times> vec" where
  "boundary_loop population_size [] (M, b) = (M, b)"
| "boundary_loop population_size (i # rest) (M, b) =
     (let row = i * population_size + i;
          M1 = M[row := map (\<lambda>x. if x \<noteq> 0 then 0 else x) (M ! row)];
          M2 = M1[row := (M1 ! row)[row := 1]];
          b1 = b[row := 1]
      in boundary_loop population_size rest (M2, b1))"

definition pair_system :: "matrix \<Rightarrow> real \<Rightarrow> matrix \<times> vec" where
  "pair_system A mutation_rate =
     (let population_size = nrows A;
          M = mat_sub (eye (population_size ^ 2))
                (scale ((1 - mutation_rate) * (1 / 2))
                   (mat_add (kron (eye population_size) A) (kron A (eye population_size))));
          b = replicate (population_size ^ 2) (mutation_rate * (1 / 2))
      in boundary_loop population_size [0..<population_size] (M, b))"

text \<open>
  The solver is checked after the system is assembled; the solution is reshaped in
  column-major order, \<open>\<phi>[a][b] = x[a + b\<cdot>N]\<close>.
\<close>

definition identity_by_state_probabilities ::
  "solver \<Rightarrow> solver \<Rightarrow> matrix \<Rightarrow> real \<Rightarrow> pyval \<Rightarrow> error + matrix" where
  "identity_by_state_probabilities spsolve lsqr A mutation_rate solver =
     (let population_size = nrows A;
          (M, b) = pair_system A mutation_rate
      in if \<not> is_str solver then Inl TypeError
         else if lower (str_of solver) \<notin> set [''spsolve'', ''lsqr''] then Inl ValueError
         else
           (let x = (if lower (str_of solver) = ''spsolve'' then spsolve M b else lsqr M b)
            in Inr (mat population_size population_size (\<lambda>a b. x ! (a + b * population_size)))))"

text \<open>A row-stochastic \<open>N \<times> N\<close> matrix: non-negative entries, every row summing to 1.\<close>

definition row_stochastic :: "nat \<Rightarrow> matrix \<Rightarrow> bool" where
  "row_stochastic N A =
     (square N A \<and> list_all (\<lambda>row. list_all (\<lambda>x. 0 \<le> x) row \<and> sum_list row = 1) A)"

text \<open>
  The recursion of the specification for a matrix \<open>\<phi>\<close>, off the diagonal:
  \<open>\<phi> = \<mu>/2\<cdot>11\<^sup>t + ((1 - \<mu>)/2)\<cdot>(A\<phi> + (A\<phi>)\<^sup>t)\<close>; and the diagonal condition.
\<close>

definition recursion_off_diagonal :: "nat \<Rightarrow> matrix \<Rightarrow> real \<Rightarrow> matrix \<Rightarrow> bool" where
  "recursion_off_diagonal N A \<mu> \<phi> =
     list_all (\<lambda>i. list_all (\<lambda>j. i = j \<or>
         \<phi> ! i ! j = \<mu> / 2 + ((1 - \<mu>) / 2) * (mat_mul A \<phi> ! i ! j + mat_T (mat_mul A \<phi>) ! i ! j))
       [0..<N]) [0..<N]"

definition unit_diagonal :: "nat \<Rightarrow> matrix \<Rightarrow> bool" where
  "unit_diagonal N \<phi> = list_all (\<lambda>i. \<phi> ! i ! i = 1) [0..<N]"

definition symmetric :: "nat \<Rightarrow> matrix \<Rightarrow> bool" where
  "symmetric N \<phi> = list_all (\<lambda>i. list_all (\<lambda>j. \<phi> ! i ! j = \<phi> ! j ! i) [0..<N]) [0..<N]"

text \<open>
  The same equations for a family \<open>\<phi> a b\<close> indexed by pairs, in the form in which the
  assembled system states them: row \<open>a\<close> of \<open>A\<close> acts on the first index, row \<open>b\<close> on the
  second.
\<close>

definition pair_equations ::
  "nat \<Rightarrow> (nat \<Rightarrow> nat \<Rightarrow> real) \<Rightarrow> real \<Rightarrow> (nat \<Rightarrow> nat \<Rightarrow> real) \<Rightarrow> bool" where
  "pair_equations N A \<mu> \<phi> =
     ((\<forall>a<N. \<phi> a a = 1)
      \<and> (\<forall>a<N. \<forall>b<N. a \<noteq> b \<longrightarrow>
            \<phi> a b = \<mu> / 2 + ((1 - \<mu>) / 2) * ((\<Sum>l<N. A a l * \<phi> l b) + (\<Sum>k<N. A b k * \<phi> a k))))"

definition stochastic :: "nat \<Rightarrow> (nat \<Rightarrow> nat \<Rightarrow> real) \<Rightarrow> bool" where
  "stochastic N A = (\<forall>a<N. (\<forall>l<N. 0 \<le> A a l) \<and> (\<Sum>l<N. A a l) = 1)"

text \<open>
  Row \<open>r\<close> of the assembled matrix before the loop, entry by entry, and the row the loop
  leaves for a pair \<open>(i, i)\<close>.
\<close>

definition pair_entry :: "nat \<Rightarrow> matrix \<Rightarrow> real \<Rightarrow> nat \<Rightarrow> nat \<Rightarrow> real" where
  "pair_entry N A \<mu> r c =
     (if r = c then 1 else 0)
     - ((1 - \<mu>) * (1 / 2))
       * ((if r div N = c div N then A ! (r mod N) ! (c mod N) else 0)
          + (if r mod N = c mod N then A ! (r div N) ! (c div N) else 0))"

definition unit_row :: "nat \<Rightarrow> nat \<Rightarrow> real list" where
  "unit_row n r = (replicate n 0)[r := 1]"

text \<open>The walk on two nodes, its pair system at \<open>\<mu> = 1/2\<close> and the solution of that system.\<close>

definition A_two :: matrix where
  "A_two = [[0, 1], [1, 0]]"

definition solver_two :: solver where
  "solver_two M b = [1, 3 / 4, 3 / 4, 1]"

definition M_two :: matrix where
  "M_two = [[1, 0, 0, 0], [- (1 / 4), 1, 0, - (1 / 4)], [- (1 / 4), 0, 1, - (1 / 4)], [0, 0, 0, 1]]"

definition b_two :: vec where
  "b_two = [1, 1 / 4, 1 / 4, 1]"

subsection \<open>\<^verbatim>\<open>marginal_fecundity_effects\<close> and \<^verbatim>\<open>structure_coefficients\<close>\<close>

text \<open>
  \<open>m[i]\<close> is \<open>-(A \<odot> A[:, i])/N\<close>, column \<open>i\<close> of \<open>A\<close> broadcast along the rows, with
  \<open>A[:, i]/N\<close> added to its column \<open>i\<close>. The dictionary is the list of its values.
\<close>

definition marginal_fecundity_effects :: "matrix \<Rightarrow> matrix list" where
  "marginal_fecundity_effects A =
     (let population_size = nrows A
      in map (\<lambda>i. mat population_size population_size
                (\<lambda>r c. if c = i
                        then - (A ! r ! c * A ! r ! i) / real population_size
                             + A ! r ! i / real population_size
                        else - (A ! r ! c * A ! r ! i) / real population_size))
           [0..<population_size])"

text \<open>
  The five terms of the loop body for node \<open>j\<close>, entry by entry: \<open>v\<close> is a row, \<open>term1\<close> and
  \<open>term3\<close> are columns and are broadcast along the rows of \<open>term2\<close> and \<open>term4\<close>, \<open>term5\<close> is
  a number. (At \<open>\<mu> = 0\<close> the factor \<open>1/(2\<mu>)\<close> is infinite in numpy and 0 in the model.)
\<close>

definition coefficient_step ::
  "nat \<Rightarrow> matrix list \<Rightarrow> vec \<Rightarrow> matrix \<Rightarrow> real \<Rightarrow> nat \<Rightarrow> matrix \<times> matrix \<Rightarrow> matrix \<times> matrix" where
  "coefficient_step n m v phi mutation_rate j K =
     (let mj = m ! j;
          vmj = (\<lambda>c. \<Sum>r\<leftarrow>[0..<n]. v ! r * mj ! r ! c);
          term1 = (\<lambda>c. \<Sum>r\<leftarrow>[0..<n]. v ! r * (mj ! r ! c * phi ! r ! c));
          term2 = (\<lambda>c k. \<Sum>r\<leftarrow>[0..<n]. (v ! r * mj ! r ! c) * phi ! r ! k);
          term3 = (\<lambda>c. vmj c * phi ! j ! c);
          term4 = (\<lambda>c k. vmj c * phi ! j ! k);
          term5 = (\<Sum>c\<leftarrow>[0..<n]. vmj c) / real n
      in (mat_add (fst K)
            (mat n n (\<lambda>c k. (1 / (2 * mutation_rate))
               * (- (term1 c + term2 c k) + (1 - mutation_rate) * (term3 c + term4 c k) + term5))),
          mat_add (snd K)
            (mat n n (\<lambda>c k. (1 / (2 * mutation_rate))
               * (- (term1 c - term2 c k) + (1 - mutation_rate) * (term3 c - term4 c k))))))"

definition structure_coefficients ::
  "solver \<Rightarrow> solver \<Rightarrow> graph \<Rightarrow> real \<Rightarrow> pyval
     \<Rightarrow> error + (matrix \<times> matrix \<times> matrix \<times> matrix)" where
  "structure_coefficients spsolve lsqr structure mutation_rate solver =
     bind_err (random_walk_probabilities structure) (\<lambda>(w, A, e, d).
       let m = marginal_fecundity_effects A;
           v = location_weights spsolve e d mutation_rate
       in bind_err (identity_by_state_probabilities spsolve lsqr A mutation_rate solver) (\<lambda>phi.
            let n = nrows e;
                K = fold (coefficient_step n m v phi mutation_rate) [0..<n]
                      (mat n (ncols e) (\<lambda>i j. 0), mat n (ncols e) (\<lambda>i j. 0))
            in Inr (fst K, snd K, w, A)))"

subsection \<open>\<^verbatim>\<open>run_calculations\<close>\<close>

definition run_single_calculation ::
  "solver \<Rightarrow> solver \<Rightarrow> graph \<Rightarrow> real \<Rightarrow> real \<Rightarrow> pyval \<Rightarrow> real \<Rightarrow> error + (real \<times> real)" where
  "run_single_calculation spsolve lsqr structure b c solver mutation_rate =
     bind_err (structure_coefficients spsolve lsqr structure mutation_rate solver)
       (\<lambda>(K1, K2, w, A).
     bind_err (frequency_derivative K1 K2 w A b c (PyStr ''ff'')) (\<lambda>ff.
     bind_err (frequency_derivative K1 K2 w A b c (PyStr ''pp'')) (\<lambda>pp.
       Inr (ff, pp))))"

text \<open>
  \<^verbatim>\<open>Parallel(n_jobs)(delayed(f)(x) for x in xs)\<close> for tasks without random choices: the list
  of the results in the order of the inputs, or the exception of a task.
\<close>

fun parallel :: "('a \<Rightarrow> error + 'b) \<Rightarrow> 'a list \<Rightarrow> error + 'b list" where
  "parallel f [] = Inr []"
| "parallel f (x # xs) =
     bind_err (f x) (\<lambda>y.
     bind_err (parallel f xs) (\<lambda>ys. Inr (y # ys)))"

text \<open>
  \<^verbatim>\<open>np.asarray\<close> of a non-empty list of pairs is two-dimensional and \<^verbatim>\<open>[:, 0]\<close>, \<^verbatim>\<open>[:, 1]\<close> are
  its columns; of the empty list it is one-dimensional, and indexing it with two indices
  raises an IndexError.
\<close>

definition run_calculations ::
  "solver \<Rightarrow> solver \<Rightarrow> graph \<Rightarrow> real \<Rightarrow> real \<Rightarrow> real list \<Rightarrow> pyval
     \<Rightarrow> error + (real list \<times> real list)" where
  "run_calculations spsolve lsqr structure b c mutation_rates solver =
     bind_err (parallel (run_single_calculation spsolve lsqr structure b c solver) mutation_rates)
       (\<lambda>selection_effects.
          if selection_effects = [] then Inl IndexError
          else Inr (map fst selection_effects, map snd selection_effects))"

section \<open>Construction of a population\<close>

lemma lower_FF: "lower ''FF'' = ''ff''"
  by code_simp

lemma lower_ff: "lower ''ff'' = ''ff''"
  by code_simp

lemma lower_pp: "lower ''pp'' = ''pp''"
  by code_simp

lemma lower_good: "lower ''good'' = ''good''"
  by code_simp

lemma is_str_iff: "is_str v \<longleftrightarrow> (\<exists>s. v = PyStr s)"
  by (cases v) simp_all

text \<open>
  C7, as stated, fails: the label \<open>''FF''\<close> is neither of the two recognised labels
  \<open>''ff''\<close> and \<open>''pp''\<close>, yet the constructor accepts it (and stores \<open>''ff''\<close>).
\<close>

theorem init_uppercase_label_accepted:
  "''FF'' \<noteq> ''ff'' \<and> ''FF'' \<noteq> ''pp'' \<and>
   init path2 [0, 1] (PyStr ''FF'') 2 1 (PyFloat (1 / 10)) (PyFloat (1 / 10)) =
     Inr \<lparr>p_structure = path2, p_population_size = 2, p_state = [0, 1],
          p_social_good = ''ff'', p_b = 2, p_c = 1,
          p_mutation_rate = 1 / 10, p_selection_intensity = 1 / 10\<rparr>"
  by (simp add: init_def lower_FF number_of_nodes_def path2_def)

text \<open>
  C7, amended: construction checks, in this order, the state length (ValueError), the
  good-type label (TypeError when it is not a string, ValueError when its lower-cased form
  is neither \<open>''ff''\<close> nor \<open>''pp''\<close>), the mutation rate (TypeError when it is neither a
  float nor an int, ValueError when it is below 0 or above 1) and the selection intensity
  (TypeError when it is neither a float nor an int, ValueError when it is negative). It
  fails exactly when one of these checks fails, always with a TypeError or a ValueError,
  and otherwise returns the population with the lower-cased label.
\<close>

theorem init_validation:
  "(length state \<noteq> length g \<longrightarrow>
      init g state sg b c mr si = Inl ValueError)
   \<and> (length state = length g \<and> \<not> is_str sg \<longrightarrow>
      init g state sg b c mr si = Inl TypeError)
   \<and> (length state = length g \<and> is_str sg
        \<and> lower (str_of sg) \<noteq> ''ff'' \<and> lower (str_of sg) \<noteq> ''pp'' \<longrightarrow>
      init g state sg b c mr si = Inl ValueError)
   \<and> (valid_inputs g state sg (PyFloat 0) (PyFloat 0) \<and> float_or_int mr = None \<longrightarrow>
      init g state sg b c mr si = Inl TypeError)
   \<and> (valid_inputs g state sg (PyFloat 0) (PyFloat 0)
        \<and> float_or_int mr = Some mu \<and> (mu < 0 \<or> 1 < mu) \<longrightarrow>
      init g state sg b c mr si = Inl ValueError)
   \<and> (valid_inputs g state sg mr (PyFloat 0) \<and> float_or_int si = None \<longrightarrow>
      init g state sg b c mr si = Inl TypeError)
   \<and> (valid_inputs g state sg mr (PyFloat 0)
        \<and> float_or_int si = Some x \<and> x < 0 \<longrightarrow>
      init g state sg b c mr si = Inl ValueError)
   \<and> (\<not> valid_inputs g state sg mr si \<longrightarrow>
      init g state sg b c mr si \<in> {Inl TypeError, Inl ValueError})
   \<and> (valid_inputs g state sg mr si \<longrightarrow>
      init g state sg b c mr si =
        Inr \<lparr>p_structure = g, p_population_size = length g,
             p_state = state, p_social_good = lower (str_of sg), p_b = b, p_c = c,
             p_mutation_rate = the (float_or_int mr),
             p_selection_intensity = the (float_or_int si)\<rparr>)"
  by (auto simp: init_def valid_inputs_def number_of_nodes_def split: option.splits)

theorem init_validation_witness:
  "init path2 [0] (PyStr ''ff'') 2 1 (PyFloat (1 / 10)) (PyFloat (1 / 10)) = Inl ValueError
   \<and> init path2 [0, 1] (PyInt 1) 2 1 (PyFloat (1 / 10)) (PyFloat (1 / 10)) = Inl TypeError
   \<and> init path2 [0, 1] (PyStr ''good'') 2 1 (PyFloat (1 / 10)) (PyFloat (1 / 10)) = Inl ValueError
   \<and> init path2 [0, 1] (PyStr ''ff'') 2 1 (PyStr ''rate'') (PyFloat (1 / 10)) = Inl TypeError
   \<and> init path2 [0, 1] (PyStr ''ff'') 2 1 (PyInt 2) (PyFloat (1 / 10)) = Inl ValueError
   \<and> init path2 [0, 1] (PyStr ''ff'') 2 1 (PyFloat (1 / 10)) (PyStr ''intensity'') = Inl TypeError
   \<and> init path2 [0, 1] (PyStr ''ff'') 2 1 (PyFloat (1 / 10)) (PyInt (- 1)) = Inl ValueError
   \<and> init path2 [0, 1] (PyStr ''pp'') 2 1 (PyFloat (1 / 10)) (PyFloat (1 / 10)) =
       Inr \<lparr>p_structure = path2, p_population_size = 2, p_state = [0, 1],
            p_social_good = ''pp'', p_b = 2, p_c = 1,
            p_mutation_rate = 1 / 10, p_selection_intensity = 1 / 10\<rparr>"
proof -
  note v = init_validation [where g = path2 and b = 2 and c = 1]
  have 1: "init path2 [0] (PyStr ''ff'') 2 1 (PyFloat (1 / 10)) (PyFloat (1 / 10)) = Inl ValueError"
    using v [where state = "[0]" and sg = "PyStr ''ff''"] by (simp add: path2_def)
  have 2: "init path2 [0, 1] (PyInt 1) 2 1 (PyFloat (1 / 10)) (PyFloat (1 / 10)) = Inl TypeError"
    using v [where state = "[0, 1]" and sg = "PyInt 1"] by (simp add: path2_def)
  have 3: "init path2 [0, 1] (PyStr ''good'') 2 1 (PyFloat (1 / 10)) (PyFloat (1 / 10)) = Inl ValueError"
    using v [where state = "[0, 1]" and sg = "PyStr ''good''"]
    by (simp add: path2_def lower_good)
  have 4: "init path2 [0, 1] (PyStr ''ff'') 2 1 (PyStr ''rate'') (PyFloat (1 / 10)) = Inl TypeError"
    using v [where state = "[0, 1]" and sg = "PyStr ''ff''" and mr = "PyStr ''rate''"]
    by (simp add: path2_def lower_ff valid_inputs_def)
  have 5: "init path2 [0, 1] (PyStr ''ff'') 2 1 (PyInt 2) (PyFloat (1 / 10)) = Inl ValueError"
    using v [where state = "[0, 1]" and sg = "PyStr ''ff''" and mr = "PyInt 2" and mu = 2]
    by (simp add: path2_def lower_ff valid_inputs_def)
  have 6: "init path2 [0, 1] (PyStr ''ff'') 2 1 (PyFloat (1 / 10)) (PyStr ''intensity'') = Inl TypeError"
    using v [where state = "[0, 1]" and sg = "PyStr ''ff''" and mr = "PyFloat (1 / 10)"
        and si = "PyStr ''intensity''"]
    by (simp add: path2_def lower_ff valid_inputs_def)
  have 7: "init path2 [0, 1] (PyStr ''ff'') 2 1 (PyFloat (1 / 10)) (PyInt (- 1)) = Inl ValueError"
    using v [where state = "[0, 1]" and sg = "PyStr ''ff''" and mr = "PyFloat (1 / 10)"
        and si = "PyInt (- 1)" and x = "- 1"]
    by (simp add: path2_def lower_ff valid_inputs_def)
  have 8: "init path2 [0, 1] (PyStr ''pp'') 2 1 (PyFloat (1 / 10)) (PyFloat (1 / 10)) =
       Inr \<lparr>p_structure = path2, p_population_size = 2, p_state = [0, 1],
            p_social_good = ''pp'', p_b = 2, p_c = 1,
            p_mutation_rate = 1 / 10, p_selection_intensity = 1 / 10\<rparr>"
    using v [where state = "[0, 1]" and sg = "PyStr ''pp''" and mr = "PyFloat (1 / 10)"
        and si = "PyFloat (1 / 10)"]
    by (simp add: path2_def lower_pp valid_inputs_def)
  from 1 2 3 4 5 6 7 8 show ?thesis by blast
qed

section \<open>The frequency derivative\<close>

lemma sum_list_upt: "(\<Sum>i\<leftarrow>[0..<n]. f i) = (\<Sum>i<n. f i :: real)"
  by (simp add: interv_sum_list_conv_sum_set_nat atLeast0LessThan)

lemma length_mat [simp]: "length (mat r c f) = r"
  by (simp add: mat_def)

lemma nth_mat [simp]: "i < r \<Longrightarrow> j < c \<Longrightarrow> mat r c f ! i ! j = f i j"
  by (simp add: mat_def)

lemma length_nth_mat [simp]: "i < r \<Longrightarrow> length (mat r c f ! i) = c"
  by (simp add: mat_def)

lemma square_mat [simp]: "square N (mat N N f)"
  by (simp add: square_def mat_def list_all_iff)

lemma square_length: "square N M \<Longrightarrow> length M = N"
  by (simp add: square_def)

lemma square_row: "square N M \<Longrightarrow> i < N \<Longrightarrow> length (M ! i) = N"
  by (auto simp: square_def list_all_iff)

lemma square_nrows: "square N M \<Longrightarrow> nrows M = N"
  by (simp add: square_def nrows_def)

lemma square_ncols: "square N M \<Longrightarrow> ncols M = N"
  by (cases M) (auto simp: square_def ncols_def)

lemma nth_map2_mat:
  assumes "square N A" "square N B" "i < N" "j < N"
  shows "map2 (map2 f) A B ! i ! j = f (A ! i ! j) (B ! i ! j)"
  using assms by (simp add: square_length square_row)

lemma square_map2: "square N A \<Longrightarrow> square N B \<Longrightarrow> square N (map2 (map2 f) A B)"
  by (auto simp: square_def list_all_iff set_zip)

lemma sum_list_nth_upto: "length xs = n \<Longrightarrow> sum_list xs = (\<Sum>i<n. xs ! i :: real)"
  by (simp add: sum_list_sum_nth atLeast0LessThan)

lemma np_sum_square:
  assumes "square N M"
  shows "np_sum M = (\<Sum>i<N. \<Sum>j<N. M ! i ! j)"
proof -
  have "np_sum M = (\<Sum>i<N. sum_list (M ! i))"
    using assms by (simp add: np_sum_def sum_list_nth_upto square_length)
  also have "\<dots> = (\<Sum>i<N. \<Sum>j<N. M ! i ! j)"
    using assms by (intro sum.cong refl sum_list_nth_upto) (simp add: square_row)
  finally show ?thesis .
qed

lemma mat_mul_square:
  "square N A \<Longrightarrow> square N B \<Longrightarrow>
   mat_mul A B = mat N N (\<lambda>i j. \<Sum>k<N. A ! i ! k * B ! k ! j)"
  by (simp add: mat_mul_def square_nrows square_ncols sum_list_upt)

lemma mat_T_square: "square N A \<Longrightarrow> mat_T A = mat N N (\<lambda>i j. A ! j ! i)"
  by (simp add: mat_T_def square_nrows square_ncols)

lemma diag_square: "square N M \<Longrightarrow> diag M = map (\<lambda>i. M ! i ! i) [0..<N]"
  by (simp add: diag_def square_nrows square_ncols)

lemma trace_mat: "sum_list (diag (mat N N f)) = (\<Sum>i<N. f i i)"
  by (simp add: diag_square [OF square_mat] sum_list_upt)

lemma trace_mat_mul:
  assumes "square N A" "square N B"
  shows "sum_list (diag (mat_mul A B)) = (\<Sum>i<N. \<Sum>k<N. A ! i ! k * B ! k ! i)"
  by (simp add: mat_mul_square [OF assms] trace_mat)

lemma trace_additive_b:
  assumes "square N A" "square N K1" "square N K2"
  shows "sum_list (diag (mat_mul A (mat_sub K1 K2))) =
         (\<Sum>i<N. \<Sum>k<N. A ! i ! k * (K1 ! k ! i - K2 ! k ! i))"
  unfolding mat_sub_def
  by (simp add: trace_mat_mul [OF assms(1) square_map2 [OF assms(2,3)]]
      nth_map2_mat [OF assms(2,3)])

lemma trace_additive_c:
  assumes "square N A" "square N K1" "square N K2"
  shows "sum_list (diag (mat_mul (mat_T A) (mat_add K1 K2))) =
         (\<Sum>i<N. \<Sum>k<N. A ! k ! i * (K1 ! k ! i + K2 ! k ! i))"
proof -
  have "square N (mat_T A)"
    by (simp add: mat_T_square [OF assms(1)])
  then show ?thesis
    unfolding mat_add_def
    by (simp add: trace_mat_mul [OF _ square_map2 [OF assms(2,3)]]
      nth_map2_mat [OF assms(2,3)] mat_T_square [OF assms(1)])
qed

lemma np_sum_multiply:
  assumes "square N K" "square N w"
  shows "np_sum (multiply K w) = weighted_total N K w"
  unfolding multiply_def weighted_total_def
  by (simp add: np_sum_square [OF square_map2 [OF assms]] nth_map2_mat [OF assms])

lemma fd_additive:
  assumes "square N A" "square N K1" "square N K2" "lower s = ''ff''"
  shows "frequency_derivative K1 K2 w A b c (PyStr s) = Inr (additive_effect N K1 K2 A b c)"
  using assms(4)
  by (simp add: frequency_derivative_def additive_effect_def
      trace_additive_b [OF assms(1-3)] trace_additive_c [OF assms(1-3)])

lemma fd_proportional:
  assumes "square N w" "square N K1" "square N K2" "lower s = ''pp''"
  shows "frequency_derivative K1 K2 w A b c (PyStr s) = Inr (proportional_effect N K1 K2 w b c)"
  using assms(4)
  by (simp add: frequency_derivative_def proportional_effect_def Let_def
      np_sum_multiply [OF assms(2,1)] np_sum_multiply [OF assms(3,1)])

lemma square_ex: "square 2 K1_ex" "square 2 K2_ex" "square 2 w_ex" "square 2 A_ex"
  by (simp_all add: square_def K1_ex_def K2_ex_def w_ex_def A_ex_def)

lemma additive_effect_ex: "additive_effect 2 K1_ex K2_ex A_ex 2 1 = - 1 / 2"
  by (simp add: additive_effect_def K1_ex_def K2_ex_def A_ex_def lessThan_Suc numeral_2_eq_2)

lemma proportional_effect_ex: "proportional_effect 2 K1_ex K2_ex w_ex 2 1 = - 1"
  by (simp add: proportional_effect_def weighted_total_def K1_ex_def K2_ex_def w_ex_def
      lessThan_Suc numeral_2_eq_2)

text \<open>
  C1, as stated, fails: \<open>''FF''\<close> is a good-type value other than \<open>''ff''\<close> and
  \<open>''pp''\<close>, and \<^verbatim>\<open>frequency_derivative\<close> does not fail on it but returns the additive
  value.
\<close>

theorem frequency_derivative_uppercase_label:
  "''FF'' \<noteq> ''ff'' \<and> ''FF'' \<noteq> ''pp'' \<and>
   frequency_derivative K1_ex K2_ex w_ex A_ex 2 1 (PyStr ''FF'') = Inr (- 1 / 2)"
  using fd_additive [OF square_ex(4,1,2) lower_FF, of w_ex 2 1]
  by (simp add: additive_effect_ex)

text \<open>
  C1, amended: for \<open>N \<times> N\<close> arrays \<open>K1\<close>, \<open>K2\<close>, \<open>w\<close>, \<open>A\<close> and reals \<open>b\<close>, \<open>c\<close>,
  \<^verbatim>\<open>frequency_derivative\<close> compares the lower-cased label: it returns the additive formula
  when the label lower-cases to \<open>''ff''\<close>, the proportional formula when it lower-cases to
  \<open>''pp''\<close>, raises ValueError for every other string and TypeError for a value that is
  not a string.
\<close>

theorem frequency_derivative_formula:
  assumes "square N K1" "square N K2" "square N w" "square N A"
  shows "frequency_derivative K1 K2 w A b c good =
     (if \<not> is_str good then Inl TypeError
      else if lower (str_of good) = ''ff'' then Inr (additive_effect N K1 K2 A b c)
      else if lower (str_of good) = ''pp'' then Inr (proportional_effect N K1 K2 w b c)
      else Inl ValueError)"
proof (cases good)
  case (PyStr s)
  then show ?thesis
    using fd_additive [OF assms(4,1,2), of s w b c] fd_proportional [OF assms(3,1,2), of s A b c]
    by (auto simp: frequency_derivative_def)
qed (simp_all add: frequency_derivative_def)


theorem frequency_derivative_formula_witness:
  "square 2 K1_ex \<and> square 2 K2_ex \<and> square 2 w_ex \<and> square 2 A_ex
   \<and> frequency_derivative K1_ex K2_ex w_ex A_ex 2 1 (PyStr ''ff'') = Inr (- 1 / 2)
   \<and> frequency_derivative K1_ex K2_ex w_ex A_ex 2 1 (PyStr ''pp'') = Inr (- 1)
   \<and> frequency_derivative K1_ex K2_ex w_ex A_ex 2 1 (PyStr ''good'') = Inl ValueError
   \<and> frequency_derivative K1_ex K2_ex w_ex A_ex 2 1 (PyInt 1) = Inl TypeError"
  using frequency_derivative_formula [OF square_ex, of 2 1 "PyStr ''ff''"]
    frequency_derivative_formula [OF square_ex, of 2 1 "PyStr ''pp''"]
    frequency_derivative_formula [OF square_ex, of 2 1 "PyStr ''good''"]
    frequency_derivative_formula [OF square_ex, of 2 1 "PyInt 1"]
  by (simp add: square_ex lower_ff lower_pp lower_good additive_effect_ex proportional_effect_ex)

section \<open>Payoffs\<close>

lemma bind_err_Inr [simp]: "bind_err (Inr x) f = f x"
  by (simp add: bind_err_def)

lemma bind_err_Inl [simp]: "bind_err (Inl e) f = Inl e"
  by (simp add: bind_err_def)

lemma wf_graph_nbr:
  assumes "wf_graph g" "i < length g" "k \<in> set (nbrs_of g i)"
  shows "k < length g" "i \<in> set (nbrs_of g k)"
  using assms by (auto simp: wf_graph_def nbrs_of_def list_all_iff)

lemma wf_graph_distinct: "wf_graph g \<Longrightarrow> i < length g \<Longrightarrow> distinct (nbrs_of g i)"
  by (auto simp: wf_graph_def nbrs_of_def list_all_iff)

lemma degree_pos: "k \<in> set (nbrs_of g i) \<Longrightarrow> 0 < degree g i"
  by (cases "g ! i") (auto simp: degree_def nbrs_of_def)

lemma wf_graph_nbr_degree:
  assumes "wf_graph g" "i < length g" "k \<in> set (nbrs_of g i)"
  shows "0 < degree g k"
  using wf_graph_nbr(2) [OF assms] by (rule degree_pos)

lemma ff_terms_eq:
  assumes "\<forall>k\<in>set ks. k < length (p_state pop) \<and> k < length (p_structure pop)
             \<and> 0 < degree (p_structure pop) k"
  shows "ff_terms pop ks =
         Inr (map (\<lambda>k. of_int (p_state pop ! k) * (p_b pop / real (degree (p_structure pop) k))) ks)"
  using assms by (induction ks) (simp_all add: state_at_def degree_of_def)

lemma pp_terms_eq:
  assumes "\<forall>k\<in>set ks. k < length (p_state pop)"
  shows "pp_terms pop ks = Inr (map (\<lambda>k. of_int (p_state pop ! k) * p_b pop) ks)"
  using assms by (induction ks) (simp_all add: state_at_def)

lemma individual_payoff_eq:
  assumes "wf_population pop" "i < length (p_structure pop)"
  shows "individual_payoff pop i = Inr (payoff_spec pop i)"
proof -
  let ?g = "p_structure pop"
  have wf: "wf_graph ?g" and len: "length (p_state pop) = length ?g"
    using assms(1) by (simp_all add: wf_population_def)
  have nb: "neighbors ?g i = Inr (nbrs_of ?g i)"
    using assms(2) by (simp add: neighbors_def nbrs_of_def)
  have st: "state_at pop i = Inr (of_int (p_state pop ! i))"
    using assms(2) len by (simp add: state_at_def)
  have dg: "degree_of ?g i = Inr (degree ?g i)"
    using assms(2) by (simp add: degree_of_def)
  have ff: "ff_terms pop (nbrs_of ?g i) =
      Inr (map (\<lambda>k. of_int (p_state pop ! k) * (p_b pop / real (degree ?g k))) (nbrs_of ?g i))"
    by (rule ff_terms_eq)
      (use wf_graph_nbr(1) [OF wf assms(2)] wf_graph_nbr_degree [OF wf assms(2)] len in auto)
  have pp: "pp_terms pop (nbrs_of ?g i) =
      Inr (map (\<lambda>k. of_int (p_state pop ! k) * p_b pop) (nbrs_of ?g i))"
    by (rule pp_terms_eq) (use wf_graph_nbr(1) [OF wf assms(2)] len in auto)
  show ?thesis
    by (simp add: individual_payoff_def nb st dg ff pp payoff_spec_def algebra_simps)
qed

lemma index_of_append: "x \<notin> set pre \<Longrightarrow> index_of (pre @ x # ys) x = length pre"
  by (induction pre) auto

lemma payoff_loop_eq:
  assumes "wf_population pop" "distinct (pre @ rest)"
    "\<forall>i\<in>set rest. i < length (p_structure pop)"
  shows "payoff_loop pop (pre @ rest) rest
           (map (payoff_spec pop) pre @ replicate (length rest) 0) =
         Inr (map (payoff_spec pop) (pre @ rest))"
  using assms(2,3)
proof (induction rest arbitrary: pre)
  case Nil
  then show ?case by simp
next
  case (Cons x rest)
  have x: "x \<notin> set pre" and d: "distinct ((pre @ [x]) @ rest)"
    using Cons.prems(1) by auto
  have upd: "(map (payoff_spec pop) pre @ replicate (length (x # rest)) 0)
               [index_of (pre @ x # rest) x := payoff_spec pop x] =
             map (payoff_spec pop) (pre @ [x]) @ replicate (length rest) 0"
    by (simp add: index_of_append [OF x] list_update_append)
  have "payoff_loop pop (pre @ x # rest) (x # rest)
          (map (payoff_spec pop) pre @ replicate (length (x # rest)) 0) =
        payoff_loop pop ((pre @ [x]) @ rest) rest
          (map (payoff_spec pop) (pre @ [x]) @ replicate (length rest) 0)"
    using individual_payoff_eq [OF assms(1), of x] Cons.prems(2) upd by simp
  also have "\<dots> = Inr (map (payoff_spec pop) ((pre @ [x]) @ rest))"
    using Cons.IH [OF d] Cons.prems(2) by simp
  finally show ?case by simp
qed

text \<open>
  C6: for a population as the constructor makes it and a duplicate-free list of nodes of
  the graph, \<^verbatim>\<open>payoff\<close> returns, position by position, the payoff of the specification:
  \<open>-c\<cdot>state[i] + \<Sum>k\<in>N(i). state[k]\<cdot>b/degree(k)\<close> for the additive good \<open>''ff''\<close> and
  \<open>-c\<cdot>degree(i)\<cdot>state[i] + \<Sum>k\<in>N(i). state[k]\<cdot>b\<close> for the proportional good.
\<close>

theorem payoff_formula:
  assumes "wf_population pop" "distinct sub_set"
    "set sub_set \<subseteq> {..<length (p_structure pop)}"
  shows "payoff pop sub_set = Inr (map (payoff_spec pop) sub_set)"
proof -
  have "\<forall>i\<in>set sub_set. i < length (p_structure pop)"
    using assms(3) by auto
  then show ?thesis
    using payoff_loop_eq [OF assms(1), of "[]" sub_set] assms(2) by (simp add: payoff_def)
qed

lemma wf_paw_pop: "wf_population (paw_pop ''ff'')" "wf_population (paw_pop ''pp'')"
  by (simp_all add: wf_population_def paw_pop_def wf_graph_def paw_def upt_rec)

lemma payoff_spec_paw_ff:
  "payoff_spec (paw_pop ''ff'') 2 = 2" "payoff_spec (paw_pop ''ff'') 3 = - (1 / 3)"
  by (simp_all add: payoff_spec_def paw_pop_def paw_def nbrs_of_def degree_def)

lemma payoff_spec_paw_pp:
  "payoff_spec (paw_pop ''pp'') 2 = 1" "payoff_spec (paw_pop ''pp'') 3 = 1"
  by (simp_all add: payoff_spec_def paw_pop_def paw_def nbrs_of_def degree_def)

theorem payoff_formula_witness:
  "wf_population (paw_pop ''ff'') \<and> wf_population (paw_pop ''pp'') \<and> distinct [2, 3 :: nat]
   \<and> set [2, 3] \<subseteq> {..<length (p_structure (paw_pop ''ff''))}
   \<and> set [2, 3] \<subseteq> {..<length (p_structure (paw_pop ''pp''))}
   \<and> payoff (paw_pop ''ff'') [2, 3] = Inr [2, - 1 / 3]
   \<and> payoff (paw_pop ''pp'') [2, 3] = Inr [1, 1]"
proof -
  have r: "set [2, 3] \<subseteq> {..<length (p_structure (paw_pop good))}" for good
    by (simp add: paw_pop_def paw_def)
  have "payoff (paw_pop ''ff'') [2, 3] = Inr [2, - 1 / 3]"
    using payoff_formula [OF wf_paw_pop(1) _ r] by (simp add: payoff_spec_paw_ff)
  moreover have "payoff (paw_pop ''pp'') [2, 3] = Inr [1, 1]"
    using payoff_formula [OF wf_paw_pop(2) _ r] by (simp add: payoff_spec_paw_pp)
  ultimately show ?thesis
    using r wf_paw_pop by simp
qed

section \<open>The death-birth update\<close>

lemma weigh_one [simp]: "weigh 1 m = m"
  by (induction m) (auto simp: weigh_def)

lemma weigh_weigh [simp]: "weigh w (weigh v m) = weigh (w * v) m"
  by (induction m) (auto simp: weigh_def mult.assoc)

lemma weigh_append [simp]: "weigh w (m @ m') = weigh w m @ weigh w m'"
  by (simp add: weigh_def)

lemma weigh_Nil [simp]: "weigh w [] = []"
  by (simp add: weigh_def)

lemma weigh_concat: "weigh w (concat ms) = concat (map (weigh w) ms)"
  by (induction ms) simp_all

lemma weigh_Cons [simp]: "weigh w ((r, v) # m) = (r, w * v) # weigh w m"
  by (simp add: weigh_def)

lemma bind_lift_Inr [simp]: "bind_r (lift_r (Inr x)) f = f x"
  by (simp add: bind_r_def lift_r_def)

lemma bind_lift_Inl [simp]: "bind_r (lift_r (Inl e)) f = [(Inl e, 1)]"
  by (simp add: bind_r_def lift_r_def)

lemma bind_map_Inr:
  "bind_r (map (\<lambda>x. (Inr (g x), w x)) xs) f = concat (map (\<lambda>x. weigh (w x) (f (g x))) xs)"
  by (simp add: bind_r_def comp_def)

lemma bind_rand_less:
  "0 \<le> t \<Longrightarrow> t \<le> 1 \<Longrightarrow> bind_r (rand_less t) f = weigh t (f True) @ weigh (1 - t) (f False)"
  by (simp add: bind_r_def rand_less_def)

lemma bind_return_map:
  "bind_r (map (\<lambda>x. (Inr (g x), w x)) xs) (\<lambda>y. return_r (h y)) = map (\<lambda>x. (Inr (h (g x)), w x)) xs"
  by (induction xs) (simp_all add: bind_r_def return_r_def)

lemma map2_same: "map2 f xs (map g xs) = map (\<lambda>x. f x (g x)) xs"
  by (induction xs) simp_all

lemma fitness_pos: "0 < fitness pop death k"
  by (simp add: fitness_def)

lemma fitness_sum_pos:
  assumes "nbrs \<noteq> []"
  shows "0 < (\<Sum>k\<leftarrow>nbrs. fitness pop death k)"
proof (cases nbrs)
  case Nil
  with assms show ?thesis by simp
next
  case (Cons k ks)
  have "0 \<le> (\<Sum>k\<leftarrow>ks. fitness pop death k)"
    by (intro sum_list_nonneg) (auto simp: fitness_pos less_imp_le)
  then show ?thesis
    using fitness_pos [of pop death k] Cons by simp
qed

lemma sum_list_divide: "(\<Sum>x\<leftarrow>xs. f x / c) = (\<Sum>x\<leftarrow>xs. f x) / (c :: real)"
  by (induction xs) (simp_all add: add_divide_distrib)

lemma choice_birth:
  assumes "nbrs = nbrs_of (p_structure pop) death" "nbrs \<noteq> []"
  shows "choice nbrs (map (birth_probability pop death) nbrs) =
         map (\<lambda>birth. (Inr birth, birth_probability pop death birth)) nbrs"
proof -
  let ?S = "\<Sum>k\<leftarrow>nbrs. fitness pop death k"
  have S: "0 < ?S"
    by (rule fitness_sum_pos [OF assms(2)])
  have bp: "birth_probability pop death = (\<lambda>k. fitness pop death k / ?S)"
    by (simp add: fun_eq_iff birth_probability_def assms(1))
  have "sum_list (map (birth_probability pop death) nbrs) = (\<Sum>k\<leftarrow>nbrs. fitness pop death k / ?S)"
    by (simp only: bp)
  also have "\<dots> = 1"
    using S by (simp add: sum_list_divide)
  finally have 1: "sum_list (map (birth_probability pop death) nbrs) = 1" .
  have 2: "list_all (\<lambda>x. 0 \<le> x) (map (birth_probability pop death) nbrs)"
    using S by (simp add: list_all_iff bp fitness_pos less_imp_le)
  show ?thesis
    using assms(2) 1 2 by (simp add: choice_def map2_same)
qed


lemma payoff_eq:
  assumes "wf_population pop" "distinct sub_set"
    "\<forall>i\<in>set sub_set. i < length (p_structure pop)"
  shows "payoff pop sub_set = Inr (map (payoff_spec pop) sub_set)"
  using payoff_loop_eq [OF assms(1), of "[]" sub_set] assms(2,3) by (simp add: payoff_def)

lemma bind_map_id:
  "bind_r (map (\<lambda>x. (Inr x, w x)) xs) f = concat (map (\<lambda>x. weigh (w x) (f x)) xs)"
  using bind_map_Inr [of "\<lambda>x. x" w xs f] by simp

lemma concat_map_concat:
  "concat (map f (concat xss)) = concat (map (\<lambda>xs. concat (map f xs)) xss)"
  by (induction xss) simp_all

lemma wf_with_state [simp]:
  "wf_population (with_state pop death s) = wf_population pop"
  "p_structure (with_state pop death s) = p_structure pop"
  "p_population_size (with_state pop death s) = p_population_size pop"
  "p_mutation_rate (with_state pop death s) = p_mutation_rate pop"
  "length (p_state (with_state pop death s)) = length (p_state pop)"
  by (simp_all add: with_state_def wf_population_def)

lemma mean_frequency_eq:
  assumes "wf_population pop" "p_structure pop \<noteq> []"
  shows "mean_frequency pop (Some t) = Inr (frequency pop t)"
  using assms by (simp add: mean_frequency_def frequency_def wf_population_def)

lemma update_inner:
  fixes t :: int and rest :: "nat list" and mf :: "real list" and u :: nat
  assumes wf: "wf_population pop" "no_isolated_nodes (p_structure pop)" "p_structure pop \<noteq> []"
    and death: "death < length (p_structure pop)"
  defines "K \<equiv> \<lambda>pop'. update_loop pop' (Some t) rest (mf[u := frequency pop' t])"
  shows
    "bind_r (lift_r (neighbors (p_structure pop) death)) (\<lambda>nbrs.
     bind_r (lift_r (payoff pop nbrs)) (\<lambda>neighbor_payoffs.
     bind_r (lift_r (np_max neighbor_payoffs)) (\<lambda>top.
       let neighbor_fitness =
             map (\<lambda>x. exp (p_selection_intensity pop * (x - top))) neighbor_payoffs
       in
     bind_r (choice nbrs (map (\<lambda>x. x / sum_list neighbor_fitness) neighbor_fitness)) (\<lambda>birth.
     bind_r (rand_less (p_mutation_rate pop / 2)) (\<lambda>mutate.
     bind_r (lift_r (replace_state pop death birth (\<lambda>s. if mutate then 1 - s else s))) (\<lambda>pop'.
     bind_r (lift_r (mean_frequency pop' (Some t))) (\<lambda>freq.
       update_loop pop' (Some t) rest (mf[u := freq]))))))))
     = concat (map (\<lambda>birth.
         weigh (birth_probability pop death birth)
           (weigh (p_mutation_rate pop / 2) (K (with_state pop death (1 - p_state pop ! birth)))
            @ weigh (1 - p_mutation_rate pop / 2) (K (with_state pop death (p_state pop ! birth)))))
         (nbrs_of (p_structure pop) death))"
proof -
  let ?g = "p_structure pop"
  let ?nbrs = "nbrs_of ?g death"
  have g: "wf_graph ?g" and len: "length (p_state pop) = length ?g"
    and mu: "0 \<le> p_mutation_rate pop / 2" "p_mutation_rate pop / 2 \<le> 1"
    using wf(1) by (simp_all add: wf_population_def)
  have nb: "neighbors ?g death = Inr ?nbrs"
    using death by (simp add: neighbors_def nbrs_of_def)
  have ne: "?nbrs \<noteq> []"
    using wf(2) death by (simp add: no_isolated_nodes_def list_all_length nbrs_of_def)
  have inr: "\<forall>i\<in>set ?nbrs. i < length ?g"
    using wf_graph_nbr(1) [OF g death] by blast
  have pay: "payoff pop ?nbrs = Inr (map (payoff_spec pop) ?nbrs)"
    by (rule payoff_eq [OF wf(1) wf_graph_distinct [OF g death] inr])
  have top: "np_max (map (payoff_spec pop) ?nbrs) = Inr (Max (payoff_spec pop ` set ?nbrs))"
    using ne by (simp add: np_max_def)
  have fit: "map (\<lambda>x. exp (p_selection_intensity pop * (x - Max (payoff_spec pop ` set ?nbrs))))
               (map (payoff_spec pop) ?nbrs) = map (fitness pop death) ?nbrs"
    by (simp add: fitness_def)
  have prob: "map (\<lambda>x. x / sum_list (map (fitness pop death) ?nbrs)) (map (fitness pop death) ?nbrs)
      = map (birth_probability pop death) ?nbrs"
    by (simp add: birth_probability_def)
  have tail: "bind_r (rand_less (p_mutation_rate pop / 2)) (\<lambda>mutate.
       bind_r (lift_r (replace_state pop death birth (\<lambda>s. if mutate then 1 - s else s))) (\<lambda>pop'.
       bind_r (lift_r (mean_frequency pop' (Some t))) (\<lambda>freq.
         update_loop pop' (Some t) rest (mf[u := freq]))))
     = weigh (p_mutation_rate pop / 2) (K (with_state pop death (1 - p_state pop ! birth)))
       @ weigh (1 - p_mutation_rate pop / 2) (K (with_state pop death (p_state pop ! birth)))"
    if "birth \<in> set ?nbrs" for birth
  proof -
    have b: "birth < length (p_state pop)" "death < length (p_state pop)"
      using inr that death len by simp_all
    have rs: "replace_state pop death birth f = Inr (with_state pop death (f (p_state pop ! birth)))" for f
      using b by (simp add: replace_state_def with_state_def)
    have mf: "mean_frequency (with_state pop death s) (Some t) = Inr (frequency (with_state pop death s) t)" for s
      by (rule mean_frequency_eq) (simp_all add: wf)
    show ?thesis
      by (simp add: bind_rand_less [OF mu] rs mf K_def)
  qed
  have "bind_r (choice ?nbrs (map (birth_probability pop death) ?nbrs)) (\<lambda>birth.
       bind_r (rand_less (p_mutation_rate pop / 2)) (\<lambda>mutate.
       bind_r (lift_r (replace_state pop death birth (\<lambda>s. if mutate then 1 - s else s))) (\<lambda>pop'.
       bind_r (lift_r (mean_frequency pop' (Some t))) (\<lambda>freq.
         update_loop pop' (Some t) rest (mf[u := freq])))))
     = concat (map (\<lambda>birth.
         weigh (birth_probability pop death birth)
           (weigh (p_mutation_rate pop / 2) (K (with_state pop death (1 - p_state pop ! birth)))
            @ weigh (1 - p_mutation_rate pop / 2) (K (with_state pop death (p_state pop ! birth)))))
         ?nbrs)"
    unfolding choice_birth [OF refl ne] bind_map_id
    by (intro arg_cong [where f = concat] map_cong refl) (simp only: tail)
  then show ?thesis
    by (simp only: nb pay top bind_lift_Inr Let_def fit prob)
qed

lemma update_step:
  fixes t :: int and rest :: "nat list" and mf :: "real list" and u :: nat
  assumes wf: "wf_population pop" "no_isolated_nodes (p_structure pop)" "p_structure pop \<noteq> []"
  shows "update_loop pop (Some t) (u # rest) mf =
         concat (map (\<lambda>(pop', w). weigh w (update_loop pop' (Some t) rest (mf[u := frequency pop' t])))
           (death_birth_step pop))"
proof -
  let ?N = "p_population_size pop"
  let ?K = "\<lambda>pop'. update_loop pop' (Some t) rest (mf[u := frequency pop' t])"
  let ?inner = "\<lambda>death. concat (map (\<lambda>birth.
         weigh (birth_probability pop death birth)
           (weigh (p_mutation_rate pop / 2) (?K (with_state pop death (1 - p_state pop ! birth)))
            @ weigh (1 - p_mutation_rate pop / 2) (?K (with_state pop death (p_state pop ! birth)))))
         (nbrs_of (p_structure pop) death))"
  have N: "?N = length (p_structure pop)" "0 < ?N"
    using wf(1,3) by (simp_all add: wf_population_def)
  have "update_loop pop (Some t) (u # rest) mf =
      concat (map (\<lambda>death. weigh (1 / real ?N) (?inner death)) [0..<?N])"
    unfolding update_loop.simps randint_def using N(2)
    by (simp only: bind_map_id if_False less_numeral_extra(3) neq0_conv [symmetric] refl)
      (intro arg_cong [where f = concat] map_cong refl, simp only: update_inner [OF wf] N(1) set_upt atLeastLessThan_iff)
  also have "\<dots> = concat (map (\<lambda>(pop', w). weigh w (?K pop')) (death_birth_step pop))"
    unfolding death_birth_step_def concat_map_concat map_map comp_def
    by (intro arg_cong [where f = concat] map_cong refl) (simp add: weigh_concat comp_def)
  finally show ?thesis .
qed

lemma death_birth_step_wf:
  assumes "(pop', w) \<in> set (death_birth_step pop)"
  shows "wf_population pop' = wf_population pop" "p_structure pop' = p_structure pop"
  using assms by (auto simp: death_birth_step_def)

lemma update_loop_runs:
  fixes t :: int
  assumes "wf_population pop" "no_isolated_nodes (p_structure pop)" "p_structure pop \<noteq> []"
    and "i + k \<le> length mf"
  shows "update_loop pop (Some t) [i..<i + k] mf =
         map (\<lambda>((pop', fs), w). (Inr (pop', take i mf @ fs @ drop (i + k) mf), w))
           (death_birth_runs pop t k)"
  using assms
proof (induction k arbitrary: i pop mf)
  case 0
  then show ?case
    by (simp add: return_r_def)
next
  case (Suc k)
  have i: "i < length mf" "Suc i + k \<le> length mf"
    using Suc.prems(4) by simp_all
  have upt: "[i..<i + Suc k] = i # [Suc i..<Suc i + k]"
    by (simp add: upt_conv_Cons)
  have step: "weigh w (update_loop pop' (Some t) [Suc i..<Suc i + k] (mf[i := frequency pop' t])) =
      map (\<lambda>((pop'', fs), v). (Inr (pop'', take i mf @ (frequency pop' t # fs) @ drop (i + Suc k) mf), w * v))
        (death_birth_runs pop' t k)"
    if "(pop', w) \<in> set (death_birth_step pop)" for pop' w
  proof -
    have wf': "wf_population pop'" "no_isolated_nodes (p_structure pop')" "p_structure pop' \<noteq> []"
      using death_birth_step_wf [OF that] Suc.prems(1-3) by simp_all
    have "Suc i + k \<le> length (mf[i := frequency pop' t])"
      using i by simp
    from Suc.IH [OF wf' this]
    show ?thesis
      using i by (simp add: weigh_def take_Suc_conv_app_nth case_prod_unfold)
  qed
  have "update_loop pop (Some t) [i..<i + Suc k] mf =
      concat (map (\<lambda>(pop', w).
        map (\<lambda>((pop'', fs), v). (Inr (pop'', take i mf @ (frequency pop' t # fs) @ drop (i + Suc k) mf), w * v))
          (death_birth_runs pop' t k)) (death_birth_step pop))"
    unfolding upt update_step [OF Suc.prems(1-3)]
  proof (intro arg_cong [where f = concat] map_cong refl)
    fix x assume "x \<in> set (death_birth_step pop)"
    then show "(case x of (pop', w) \<Rightarrow>
          weigh w (update_loop pop' (Some t) [Suc i..<Suc i + k] (mf[i := frequency pop' t]))) =
        (case x of (pop', w) \<Rightarrow>
          map (\<lambda>((pop'', fs), v). (Inr (pop'', take i mf @ (frequency pop' t # fs) @ drop (i + Suc k) mf), w * v))
            (death_birth_runs pop' t k))"
      using step [of "fst x" "snd x"] by (simp only: case_prod_unfold prod.collapse)
  qed
  also have "\<dots> = map (\<lambda>((pop', fs), w). (Inr (pop', take i mf @ fs @ drop (i + Suc k) mf), w))
      (death_birth_runs pop t (Suc k))"
    by (simp add: map_concat comp_def case_prod_unfold)
  finally show ?case .
qed

lemma death_birth_runs_length:
  "((pop', fs), w) \<in> set (death_birth_runs pop t n) \<Longrightarrow> length fs = n"
proof (induction n arbitrary: pop pop' fs w)
  case 0
  then show ?case by simp
next
  case (Suc n)
  from Suc.prems obtain p1 fs2 v where
    "((pop', fs2), v) \<in> set (death_birth_runs p1 t n)" "fs = frequency p1 t # fs2"
    by auto
  then show ?case
    using Suc.IH by auto
qed

lemma birth_probability_sum:
  assumes "nbrs_of (p_structure pop) death \<noteq> []"
  shows "(\<Sum>birth\<leftarrow>nbrs_of (p_structure pop) death. birth_probability pop death birth) = 1"
proof -
  let ?nbrs = "nbrs_of (p_structure pop) death"
  let ?S = "\<Sum>k\<leftarrow>?nbrs. fitness pop death k"
  have "0 < ?S"
    by (rule fitness_sum_pos [OF assms])
  moreover have "birth_probability pop death = (\<lambda>k. fitness pop death k / ?S)"
    by (simp add: fun_eq_iff birth_probability_def)
  ultimately show ?thesis
    by (simp add: sum_list_divide)
qed

lemma sum_list_snd_concat:
  "sum_list (map snd (concat (map f xs))) = (\<Sum>x\<leftarrow>xs. sum_list (map snd (f x)) :: real)"
  by (induction xs) simp_all

lemma death_birth_step_total:
  assumes "wf_population pop" "no_isolated_nodes (p_structure pop)" "p_structure pop \<noteq> []"
  shows "sum_list (map snd (death_birth_step pop)) = 1"
proof -
  let ?N = "p_population_size pop"
  have N: "?N = length (p_structure pop)" "0 < ?N"
    using assms(1,3) by (simp_all add: wf_population_def)
  have inner: "(\<Sum>birth\<leftarrow>nbrs_of (p_structure pop) death.
        sum_list (map snd
         [(with_state pop death (1 - p_state pop ! birth),
           1 / real ?N * (birth_probability pop death birth * (p_mutation_rate pop / 2))),
          (with_state pop death (p_state pop ! birth),
           1 / real ?N * (birth_probability pop death birth * (1 - p_mutation_rate pop / 2)))]))
      = 1 / real ?N" if "death < ?N" for death
  proof -
    have ne: "nbrs_of (p_structure pop) death \<noteq> []"
      using assms(2) that N(1) by (simp add: no_isolated_nodes_def list_all_length nbrs_of_def)
    have "(\<Sum>birth\<leftarrow>nbrs_of (p_structure pop) death.
        sum_list (map snd
         [(with_state pop death (1 - p_state pop ! birth),
           1 / real ?N * (birth_probability pop death birth * (p_mutation_rate pop / 2))),
          (with_state pop death (p_state pop ! birth),
           1 / real ?N * (birth_probability pop death birth * (1 - p_mutation_rate pop / 2)))]))
      = (\<Sum>birth\<leftarrow>nbrs_of (p_structure pop) death. (1 / real ?N) * birth_probability pop death birth)"
      by (intro arg_cong [where f = sum_list] map_cong refl) (simp add: algebra_simps)
    also have "\<dots> = 1 / real ?N"
      by (simp only: sum_list_const_mult birth_probability_sum [OF ne] mult_1_right)
    finally show ?thesis .
  qed
  have "sum_list (map snd (death_birth_step pop)) = (\<Sum>death\<leftarrow>[0..<?N]. 1 / real ?N)"
    unfolding death_birth_step_def sum_list_snd_concat
    by (intro arg_cong [where f = sum_list] map_cong refl, rule inner) simp
  also have "\<dots> = 1"
    using N(2) by (simp add: sum_list_triv)
  finally show ?thesis .
qed

text \<open>
  C5: for a population as the constructor makes it, on a non-empty graph without isolated
  nodes, the outcomes of \<^verbatim>\<open>update_population(trait, n)\<close> and their probabilities are those
  of \<open>n\<close> death-birth steps of the specification (death node uniform among the \<open>N\<close>
  nodes, birth node among its neighbours with probability proportional to
  \<open>exp(\<delta>\<cdot>(payoff - max payoff))\<close>, the complementary trait with probability \<open>\<mu>/2\<close> and a
  copy otherwise), each followed by an observation of the mean frequency of the trait; the
  sequence returned has length \<open>n\<close>, and the probabilities of one step add up to 1.
\<close>

theorem update_population_death_birth:
  assumes "wf_population pop" "no_isolated_nodes (p_structure pop)" "p_structure pop \<noteq> []"
  shows "update_population pop (Some t) n =
           map (\<lambda>((pop', fs), w). (Inr (pop', Some fs), w)) (death_birth_runs pop t n)
       \<and> list_all (\<lambda>((pop', fs), w). length fs = n) (death_birth_runs pop t n)
       \<and> sum_list (map snd (death_birth_step pop)) = 1"
proof (intro conjI)
  have "update_loop pop (Some t) [0..<0 + n] (replicate n 0) =
      map (\<lambda>((pop', fs), w). (Inr (pop', take 0 (replicate n 0) @ fs @ drop (0 + n) (replicate n 0)), w))
        (death_birth_runs pop t n)"
    by (rule update_loop_runs [OF assms]) simp
  then have "update_loop pop (Some t) [0..<n] (replicate n 0) =
      map (\<lambda>x. (Inr (fst x), snd x)) (death_birth_runs pop t n)"
    by (simp add: case_prod_unfold)
  then show "update_population pop (Some t) n =
      map (\<lambda>((pop', fs), w). (Inr (pop', Some fs), w)) (death_birth_runs pop t n)"
    by (simp add: update_population_def bind_return_map case_prod_unfold)
  show "list_all (\<lambda>((pop', fs), w). length fs = n) (death_birth_runs pop t n)"
    using death_birth_runs_length by (fastforce simp: list_all_iff)
  show "sum_list (map snd (death_birth_step pop)) = 1"
    by (rule death_birth_step_total [OF assms])
qed

lemma path2_pop_valid:
  "wf_population path2_pop" "no_isolated_nodes (p_structure path2_pop)" "p_structure path2_pop \<noteq> []"
  by (simp_all add: wf_population_def path2_pop_def path2_def wf_graph_def no_isolated_nodes_def upt_rec)

lemma death_birth_step_path2:
  "death_birth_step path2_pop =
     [(path2_pop\<lparr>p_state := [1, 0]\<rparr>, 1 / 8), (path2_pop\<lparr>p_state := [0, 0]\<rparr>, 3 / 8),
      (path2_pop\<lparr>p_state := [1, 0]\<rparr>, 1 / 8), (path2_pop\<lparr>p_state := [1, 1]\<rparr>, 3 / 8)]"
  by (simp add: death_birth_step_def path2_pop_def path2_def nbrs_of_def upt_rec with_state_def
      birth_probability_def fitness_def)

lemma death_birth_runs_path2:
  "death_birth_runs path2_pop 1 1 =
     [((path2_pop\<lparr>p_state := [1, 0]\<rparr>, [1 / 2]), 1 / 8), ((path2_pop\<lparr>p_state := [0, 0]\<rparr>, [0]), 3 / 8),
      ((path2_pop\<lparr>p_state := [1, 0]\<rparr>, [1 / 2]), 1 / 8), ((path2_pop\<lparr>p_state := [1, 1]\<rparr>, [1]), 3 / 8)]"
  unfolding One_nat_def death_birth_runs.simps death_birth_step_path2
  by (simp add: frequency_def path2_pop_def)

theorem update_population_death_birth_witness:
  "wf_population path2_pop \<and> no_isolated_nodes (p_structure path2_pop) \<and> p_structure path2_pop \<noteq> []
   \<and> update_population path2_pop (Some 1) 1 =
     [(Inr (path2_pop\<lparr>p_state := [1, 0]\<rparr>, Some [1 / 2]), 1 / 8),
      (Inr (path2_pop\<lparr>p_state := [0, 0]\<rparr>, Some [0]), 3 / 8),
      (Inr (path2_pop\<lparr>p_state := [1, 0]\<rparr>, Some [1 / 2]), 1 / 8),
      (Inr (path2_pop\<lparr>p_state := [1, 1]\<rparr>, Some [1]), 3 / 8)]"
proof -
  have "update_population path2_pop (Some 1) 1 =
      map (\<lambda>((pop', fs), w). (Inr (pop', Some fs), w)) (death_birth_runs path2_pop 1 1)"
    using update_population_death_birth [OF path2_pop_valid, of 1 1] by (rule conjunct1)
  then have "update_population path2_pop (Some 1) 1 =
     [(Inr (path2_pop\<lparr>p_state := [1, 0]\<rparr>, Some [1 / 2]), 1 / 8),
      (Inr (path2_pop\<lparr>p_state := [0, 0]\<rparr>, Some [0]), 3 / 8),
      (Inr (path2_pop\<lparr>p_state := [1, 0]\<rparr>, Some [1 / 2]), 1 / 8),
      (Inr (path2_pop\<lparr>p_state := [1, 1]\<rparr>, Some [1]), 3 / 8)]"
    unfolding death_birth_runs_path2 by simp
  then show ?thesis
    using path2_pop_valid by simp
qed

section \<open>Location weights\<close>

lemma mat_vec_nth:
  "r < length M \<Longrightarrow> mat_vec M x ! r = (\<Sum>c<length (M ! r). M ! r ! c * x ! c)"
  by (simp add: mat_vec_def sum_list_upt)

lemma length_mat_vec [simp]: "length (mat_vec M x) = length M"
  by (simp add: mat_vec_def)

lemma tilde_A_square:
  assumes "square N e" "length d = N"
  shows "tilde_A e d \<mu> = stated_system N e d \<mu>"
proof -
  have "mat N N (\<lambda>i j. eye N ! i ! j - (1 - \<mu>) * (mat N N (\<lambda>i j. e ! j ! i) ! i ! j * (1 / d ! j)))
      = mat N N (\<lambda>i j. (if i = j then 1 else 0) - (1 - \<mu>) * (e ! j ! i / d ! j))"
    by (simp add: mat_def eye_def)
  then show ?thesis
    using assms(1)
    by (simp add: tilde_A_def stated_system_def square_nrows mat_T_square)
qed

lemma mat_T_stated_system: "mat_T (stated_system N e d \<mu>) = transposed_system N e d \<mu>"
proof -
  have "mat N N (\<lambda>i j. stated_system N e d \<mu> ! j ! i) = transposed_system N e d \<mu>"
    by (auto simp: mat_def stated_system_def transposed_system_def)
  then show ?thesis
    by (simp add: mat_T_square [of N] stated_system_def)
qed

lemma location_weights_eq:
  assumes "square N e" "length d = N"
  shows "location_weights spsolve e d \<mu> =
         map2 (/) (spsolve (transposed_system N e d \<mu>) (replicate N (\<mu> / real N))) d"
  using assms(1)
  by (simp add: location_weights_def tilde_A_square [OF assms] mat_T_stated_system square_nrows)

lemma transposed_system_path3:
  "transposed_system 3 e_path3 d_path3 (1 / 2) =
     [[1, - (1 / 4), 0], [- (1 / 2), 1, - (1 / 2)], [0, - (1 / 4), 1]]"
  by (simp add: transposed_system_def mat_def e_path3_def d_path3_def upt_rec)

lemma stated_system_path3:
  "stated_system 3 e_path3 d_path3 (1 / 2) =
     [[1, - (1 / 2), 0], [- (1 / 4), 1, - (1 / 4)], [0, - (1 / 2), 1]]"
  by (simp add: stated_system_def mat_def e_path3_def d_path3_def upt_rec)

lemma square_e_path3: "square 3 e_path3"
  by (simp add: square_def e_path3_def)

lemma direct_ok_path3:
  "direct_ok spsolve_path3 (transposed_system 3 e_path3 d_path3 (1 / 2)) (replicate 3 ((1 / 2) / real 3))"
  by code_simp

lemma random_walk_path3:
  "random_walk_probabilities path3 =
     Inr ([[0, 1, 0], [1, 0, 1], [0, 1, 0]], [[0, 1, 0], [1 / 2, 0, 1 / 2], [0, 1, 0]],
          e_path3, d_path3)"
  by code_simp

text \<open>
  C4, as stated, fails on the path with three nodes at \<open>\<mu> = 1/2\<close>: the solver is handed
  the transpose of the stated matrix, and its (correct) answer \<open>x = v \<odot> d\<close> does not solve
  the stated system, whose right-hand side is \<open>1/6\<close> everywhere.
\<close>

theorem location_weights_stated_system_fails:
  "random_walk_probabilities path3 =
     Inr ([[0, 1, 0], [1, 0, 1], [0, 1, 0]], [[0, 1, 0], [1 / 2, 0, 1 / 2], [0, 1, 0]],
          e_path3, d_path3)
   \<and> direct_ok spsolve_path3 (mat_T (tilde_A e_path3 d_path3 (1 / 2))) (replicate 3 ((1 / 2) / 3))
   \<and> location_weights spsolve_path3 e_path3 d_path3 (1 / 2) = [5 / 6, 4 / 3, 5 / 6]
   \<and> map2 (*) [5 / 6, 4 / 3, 5 / 6] d_path3 = [5 / 18, 4 / 9, 5 / 18]
   \<and> mat_vec (stated_system 3 e_path3 d_path3 (1 / 2)) [5 / 18, 4 / 9, 5 / 18]
        = [1 / 18, 11 / 36, 1 / 18]
   \<and> [1 / 18, 11 / 36, 1 / 18] \<noteq> replicate 3 ((1 / 2) / (3 :: real))"
proof -
  have 1: "mat_T (tilde_A e_path3 d_path3 (1 / 2)) = transposed_system 3 e_path3 d_path3 (1 / 2)"
    by (simp add: tilde_A_square [OF square_e_path3] mat_T_stated_system d_path3_def)
  have 2: "location_weights spsolve_path3 e_path3 d_path3 (1 / 2) = [5 / 6, 4 / 3, 5 / 6]"
    by (simp add: location_weights_eq [OF square_e_path3] d_path3_def spsolve_path3_def)
  have 3: "map2 (*) [5 / 6, 4 / 3, 5 / 6] d_path3 = [5 / 18, 4 / 9, 5 / 18]"
    by (simp add: d_path3_def)
  have 4: "mat_vec (stated_system 3 e_path3 d_path3 (1 / 2)) [5 / 18, 4 / 9, 5 / 18]
        = [1 / 18, 11 / 36, 1 / 18]"
    by (simp add: stated_system_path3 mat_vec_def upt_rec)
  show ?thesis
    using random_walk_path3 direct_ok_path3 1 2 3 4 by (simp add: numeral_3_eq_3)
qed

subsection \<open>The invariant of the location weights\<close>

lemma nrows_mat [simp]: "nrows (mat r c f) = r"
  by (simp add: nrows_def)

lemma ncols_mat [simp]: "0 < r \<Longrightarrow> ncols (mat r c f) = c"
  by (simp add: square_ncols ncols_def mat_def upt_conv_Cons split: list.splits)

lemma random_walk_unfold:
  assumes "random_walk_probabilities g = Inr (w, A, e, d)"
  defines "N \<equiv> length g"
  shows "0 < N"
    and "w = mat N N (weight g)"
    and "A = mat N N (\<lambda>i j. w ! i ! j * (1 / sum_list (w ! i)))"
    and "e = mat N N (\<lambda>i j. A ! j ! i / real N)"
    and "d = map (\<lambda>k. \<Sum>i<N. e ! i ! k) [0..<N]"
proof -
  show n: "0 < N"
    using assms by (auto simp: random_walk_probabilities_def adjacency_matrix_def split: if_splits)
  then have adj: "adjacency_matrix g = Inr (mat N N (weight g))"
    by (auto simp: adjacency_matrix_def N_def)
  have "(w, A, e, d) =
     (let w' = mat N N (weight g);
          A' = mat N N (\<lambda>i j. w' ! i ! j * (1 / sum_list (w' ! i)));
          e' = mat N N (\<lambda>i j. A' ! j ! i / real N);
          d' = map (\<lambda>k. \<Sum>i<N. e' ! i ! k) [0..<N]
      in (w', A', e', d'))"
    using assms(1) n by (auto simp: random_walk_probabilities_def adj Let_def sum_list_upt)
  then show "w = mat N N (weight g)"
    and "A = mat N N (\<lambda>i j. w ! i ! j * (1 / sum_list (w ! i)))"
    and "e = mat N N (\<lambda>i j. A ! j ! i / real N)"
    and "d = map (\<lambda>k. \<Sum>i<N. e ! i ! k) [0..<N]"
    unfolding Let_def by blast+
qed

lemma mat_cong: "(\<And>i j. i < r \<Longrightarrow> j < c \<Longrightarrow> f i j = h i j) \<Longrightarrow> mat r c f = mat r c h"
  by (simp add: mat_def)

lemma degree_positive_row:
  "degree_positive g \<Longrightarrow> i < length g \<Longrightarrow> 0 < (\<Sum>j<length g. weight g i j)"
  by (simp add: degree_positive_def list_all_iff sum_list_upt)

lemma random_walk_row_stochastic:
  assumes "random_walk_probabilities g = Inr (w, A, e, d)" "degree_positive g" "i < length g"
  shows "(\<Sum>j<length g. A ! i ! j) = 1"
proof -
  note u = random_walk_unfold [OF assms(1)]
  let ?N = "length g"
  have row: "sum_list (w ! i) = (\<Sum>j<?N. weight g i j)"
    using assms(3) by (subst sum_list_nth_upto [of _ ?N]) (simp_all add: u(2))
  then have pos: "sum_list (w ! i) \<noteq> 0"
    using degree_positive_row [OF assms(2,3)] by simp
  have "(\<Sum>j<?N. A ! i ! j) = (\<Sum>j<?N. weight g i j * (1 / sum_list (w ! i)))"
    using assms(3) by (intro sum.cong refl) (simp add: u(3), simp add: u(2))
  also have "\<dots> = (\<Sum>j<?N. weight g i j) * (1 / sum_list (w ! i))"
    by (simp only: sum_distrib_right)
  also have "\<dots> = 1"
    using pos row by simp
  finally show ?thesis .
qed

lemma random_walk_d:
  assumes "random_walk_probabilities g = Inr (w, A, e, d)" "degree_positive g" "k < length g"
  shows "d ! k = 1 / real (length g)"
proof -
  note u = random_walk_unfold [OF assms(1)]
  let ?N = "length g"
  have "d ! k = (\<Sum>i<?N. e ! i ! k)"
    using assms(3) by (simp add: u(5))
  also have "\<dots> = (\<Sum>i<?N. A ! k ! i / real ?N)"
    using assms(3) by (intro sum.cong refl) (simp add: u(4))
  also have "\<dots> = (\<Sum>i<?N. A ! k ! i) / real ?N"
    by (simp add: sum_divide_distrib)
  finally show ?thesis
    by (simp add: random_walk_row_stochastic [OF assms])
qed

lemma random_walk_shapes:
  assumes "random_walk_probabilities g = Inr (w, A, e, d)"
  shows "square (length g) A" "square (length g) e" "length d = length g"
  using random_walk_unfold [OF assms] by simp_all

lemma random_walk_transposed_system:
  assumes "random_walk_probabilities g = Inr (w, A, e, d)" "degree_positive g"
  shows "transposed_system (length g) e d \<mu> =
         mat (length g) (length g) (\<lambda>i j. (if i = j then 1 else 0) - (1 - \<mu>) * A ! j ! i)"
proof -
  note u = random_walk_unfold [OF assms(1)]
  have "e ! i ! j / d ! i = A ! j ! i" if "i < length g" "j < length g" for i j
    using that u(1) by (simp add: random_walk_d [OF assms] u(4))
  then show ?thesis
    unfolding transposed_system_def by (intro mat_cong) simp
qed

text \<open>
  C2: let \<open>(w, A, e, d)\<close> be the random-walk data of a graph whose nodes all have positive
  degree, and let the direct solver answer the system it is handed correctly. Then the
  vector \<open>v\<close> that \<^verbatim>\<open>location_weights\<close> returns satisfies
  \<open>N\<cdot>(v \<odot> d)\<cdot>(I - (1 - \<mu>)\<cdot>A) = \<mu>\<cdot>1\<close> in every entry, exactly (in exact arithmetic, hence
  within every tolerance). The identity needs no restriction of the mutation rate.
\<close>

theorem location_weights_invariant:
  assumes "random_walk_probabilities g = Inr (w, A, e, d)" "degree_positive g"
    and "direct_ok spsolve (mat_T (tilde_A e d \<mu>))
           (replicate (length g) (\<mu> * 1 / real (length g)))"
  shows "walk_image (length g) (location_weights spsolve e d \<mu>) d A \<mu> = replicate (length g) \<mu>"
proof -
  let ?N = "length g"
  let ?T = "transposed_system ?N e d \<mu>"
  let ?b = "replicate ?N (\<mu> / real ?N)"
  let ?x = "spsolve ?T ?b"
  let ?v = "location_weights spsolve e d \<mu>"
  note u = random_walk_unfold [OF assms(1)]
  note sh = random_walk_shapes [OF assms(1)]
  have T: "mat_T (tilde_A e d \<mu>) = ?T"
    by (simp add: tilde_A_square [OF sh(2,3)] mat_T_stated_system)
  have ok: "length ?x = ?N" "mat_vec ?T ?x = ?b"
    using assms(3) by (simp_all add: T direct_ok_def)
  have row: "(\<Sum>i<?N. ((if j = i then 1 else 0) - (1 - \<mu>) * A ! i ! j) * ?x ! i) = \<mu> / real ?N"
    if "j < ?N" for j
  proof -
    have "mat_vec ?T ?x ! j = (\<Sum>c<?N. ?T ! j ! c * ?x ! c)"
      using that by (subst mat_vec_nth) (simp_all add: transposed_system_def)
    also have "\<dots> = (\<Sum>i<?N. ((if j = i then 1 else 0) - (1 - \<mu>) * A ! i ! j) * ?x ! i)"
      using that by (intro sum.cong refl) (simp add: random_walk_transposed_system [OF assms(1,2)])
    finally show ?thesis
      using that by (simp add: ok(2))
  qed
  have v: "?v ! i * d ! i = ?x ! i" if "i < ?N" for i
    using that u(1) ok(1) sh(3)
    by (simp add: location_weights_eq [OF sh(2,3)] random_walk_d [OF assms(1,2)])
  have "(\<Sum>i<?N. real ?N * (?v ! i * d ! i) * ((if i = j then 1 else 0) - (1 - \<mu>) * A ! i ! j)) = \<mu>"
    if "j < ?N" for j
  proof -
    have "(\<Sum>i<?N. real ?N * (?v ! i * d ! i) * ((if i = j then 1 else 0) - (1 - \<mu>) * A ! i ! j))
        = (\<Sum>i<?N. real ?N * (((if j = i then 1 else 0) - (1 - \<mu>) * A ! i ! j) * ?x ! i))"
      by (intro sum.cong refl) (auto simp: v)
    also have "\<dots> = real ?N * (\<mu> / real ?N)"
      by (simp add: sum_distrib_left [symmetric] row [OF that])
    finally show ?thesis
      using u(1) by simp
  qed
  then show ?thesis
    by (auto simp: walk_image_def sum_list_upt intro!: nth_equalityI)
qed

lemma degree_positive_path3: "degree_positive path3"
  by code_simp

lemma direct_ok_path3_code:
  "direct_ok spsolve_path3 (mat_T (tilde_A e_path3 d_path3 (1 / 2)))
     (replicate (length path3) ((1 / 2) * 1 / real (length path3)))"
  by code_simp

theorem location_weights_invariant_witness:
  "random_walk_probabilities path3 =
     Inr ([[0, 1, 0], [1, 0, 1], [0, 1, 0]], [[0, 1, 0], [1 / 2, 0, 1 / 2], [0, 1, 0]],
          e_path3, d_path3)
   \<and> degree_positive path3
   \<and> direct_ok spsolve_path3 (mat_T (tilde_A e_path3 d_path3 (1 / 2)))
        (replicate (length path3) ((1 / 2) * 1 / real (length path3)))
   \<and> walk_image 3 (location_weights spsolve_path3 e_path3 d_path3 (1 / 2)) d_path3
        [[0, 1, 0], [1 / 2, 0, 1 / 2], [0, 1, 0]] (1 / 2) = [1 / 2, 1 / 2, 1 / 2]"
proof -
  have 3: "length path3 = 3"
    by (simp add: path3_def)
  show ?thesis
    using location_weights_invariant [OF random_walk_path3 degree_positive_path3 direct_ok_path3_code]
      random_walk_path3 degree_positive_path3 direct_ok_path3_code
    by (simp add: 3 numeral_3_eq_3)
qed

subsection \<open>The system of the location weights has exactly one solution\<close>

lemma column_average_le:
  assumes "stochastic N A"
  shows "(\<Sum>j<N. \<bar>\<Sum>i<N. A i j * y i\<bar>) \<le> (\<Sum>i<N. \<bar>y i\<bar>)"
proof -
  have nn: "0 \<le> A i j" if "i < N" "j < N" for i j
    using assms that by (simp add: stochastic_def)
  have "(\<Sum>j<N. \<bar>\<Sum>i<N. A i j * y i\<bar>) \<le> (\<Sum>j<N. \<Sum>i<N. A i j * \<bar>y i\<bar>)"
  proof (rule sum_mono)
    fix j assume "j \<in> {..<N}"
    then have j: "j < N" by simp
    have "\<bar>\<Sum>i<N. A i j * y i\<bar> \<le> (\<Sum>i<N. \<bar>A i j * y i\<bar>)"
      by (rule sum_abs)
    also have "\<dots> = (\<Sum>i<N. A i j * \<bar>y i\<bar>)"
      by (intro sum.cong refl) (simp add: abs_mult nn j)
    finally show "\<bar>\<Sum>i<N. A i j * y i\<bar> \<le> (\<Sum>i<N. A i j * \<bar>y i\<bar>)" .
  qed
  also have "\<dots> = (\<Sum>i<N. \<Sum>j<N. A i j * \<bar>y i\<bar>)"
    by (rule sum.swap)
  also have "\<dots> = (\<Sum>i<N. (\<Sum>j<N. A i j) * \<bar>y i\<bar>)"
    by (simp only: sum_distrib_right)
  also have "\<dots> = (\<Sum>i<N. \<bar>y i\<bar>)"
    using assms by (intro sum.cong refl) (simp add: stochastic_def)
  finally show ?thesis .
qed

lemma walk_homogeneous_zero:
  assumes mu: "0 < \<mu>" "\<mu> \<le> 1" and st: "stochastic N A"
    and eq: "\<And>j. j < N \<Longrightarrow> y j = (1 - \<mu>) * (\<Sum>i<N. A i j * y i)"
    and "j < N"
  shows "y j = 0"
proof -
  let ?S = "\<Sum>i<N. \<bar>y i\<bar>"
  have scaled_abs: "\<bar>(1 - \<mu>) * s\<bar> = (1 - \<mu>) * \<bar>s\<bar>" for s
    using mu by (simp add: abs_mult)
  have "?S = (\<Sum>j<N. \<bar>(1 - \<mu>) * (\<Sum>i<N. A i j * y i)\<bar>)"
    by (intro sum.cong refl) (simp add: eq [symmetric])
  also have "\<dots> = (1 - \<mu>) * (\<Sum>j<N. \<bar>\<Sum>i<N. A i j * y i\<bar>)"
    by (simp only: scaled_abs) (rule sum_distrib_left [symmetric])
  also have "\<dots> \<le> (1 - \<mu>) * ?S"
    using mu by (intro mult_left_mono column_average_le [OF st]) simp
  finally have "\<mu> * ?S \<le> 0"
    by (simp add: algebra_simps)
  moreover have "0 \<le> ?S"
    by (simp add: sum_nonneg)
  ultimately have "?S = 0"
    using mu(1) by (simp add: mult_le_0_iff)
  then have "\<forall>i\<in>{..<N}. \<bar>y i\<bar> = 0"
    by (subst (asm) sum_nonneg_eq_0_iff) simp_all
  then show ?thesis
    using \<open>j < N\<close> by simp
qed

lemma walk_equations_unique:
  assumes "0 < \<mu>" "\<mu> \<le> 1" "stochastic N A"
    and "\<And>j. j < N \<Longrightarrow> x j = c + (1 - \<mu>) * (\<Sum>i<N. A i j * x i)"
    and "\<And>j. j < N \<Longrightarrow> z j = c + (1 - \<mu>) * (\<Sum>i<N. A i j * z i)"
    and "j < N"
  shows "x j = z j"
proof -
  have "x j - z j = 0"
  proof (rule walk_homogeneous_zero [OF assms(1-3) _ assms(6), where y = "\<lambda>j. x j - z j"])
    fix j assume j: "j < N"
    show "x j - z j = (1 - \<mu>) * (\<Sum>i<N. A i j * (x i - z i))"
      using assms(4) [OF j] assms(5) [OF j]
      by (simp add: algebra_simps sum_subtractf)
  qed
  then show ?thesis by simp
qed

lemma walk_equations_solvable:
  assumes mu: "0 < \<mu>" "\<mu> \<le> 1" and st: "stochastic N A"
  shows "\<exists>x. \<forall>j<N. x j = c + (1 - \<mu>) * (\<Sum>i<N. A i j * x i)"
proof -
  define T where "T x j = c + (1 - \<mu>) * (\<Sum>i<N. A i j * x i)" for x :: "nat \<Rightarrow> real" and j
  define F where "F n = (T ^^ n) (\<lambda>j. 0)" for n
  define D where "D = real N * \<bar>c\<bar>"
  have F_Suc: "F (Suc n) = T (F n)" for n
    by (simp add: F_def)
  have scaled_abs: "\<bar>(1 - \<mu>) * s\<bar> = (1 - \<mu>) * \<bar>s\<bar>" for s
    using mu by (simp add: abs_mult)
  have T_diff: "T u j - T v j = (1 - \<mu>) * (\<Sum>i<N. A i j * (u i - v i))" for u v j
  proof -
    have "(\<Sum>i<N. A i j * (u i - v i)) = (\<Sum>i<N. A i j * u i) - (\<Sum>i<N. A i j * v i)"
      by (simp add: right_diff_distrib sum_subtractf)
    then show ?thesis
      by (simp add: T_def right_diff_distrib)
  qed
  have total: "(\<Sum>j<N. \<bar>F (Suc n) j - F n j\<bar>) \<le> (1 - \<mu>) ^ n * D" for n
  proof (induction n)
    case 0
    then show ?case
      by (simp add: F_def T_def D_def)
  next
    case (Suc n)
    have "(\<Sum>j<N. \<bar>F (Suc (Suc n)) j - F (Suc n) j\<bar>)
        = (\<Sum>j<N. \<bar>(1 - \<mu>) * (\<Sum>i<N. A i j * (F (Suc n) i - F n i))\<bar>)"
      by (simp only: F_Suc [of "Suc n"] F_Suc [of n] T_diff)
    also have "\<dots> = (1 - \<mu>) * (\<Sum>j<N. \<bar>\<Sum>i<N. A i j * (F (Suc n) i - F n i)\<bar>)"
      by (simp only: scaled_abs) (rule sum_distrib_left [symmetric])
    also have "\<dots> \<le> (1 - \<mu>) * (\<Sum>i<N. \<bar>F (Suc n) i - F n i\<bar>)"
      using mu by (intro mult_left_mono column_average_le [OF st]) simp
    also have "\<dots> \<le> (1 - \<mu>) * ((1 - \<mu>) ^ n * D)"
      using mu by (intro mult_left_mono Suc.IH) simp
    finally show ?case by simp
  qed
  have step: "\<bar>F (Suc n) j - F n j\<bar> \<le> (1 - \<mu>) ^ n * D" if "j < N" for n j
  proof -
    have "\<bar>F (Suc n) j - F n j\<bar> \<le> (\<Sum>j<N. \<bar>F (Suc n) j - F n j\<bar>)"
      using that by (intro member_le_sum) simp_all
    then show ?thesis
      using total [of n] by linarith
  qed
  have conv: "\<exists>L. (\<lambda>n. F n j) \<longlonglongrightarrow> L" if "j < N" for j
  proof -
    have "summable (\<lambda>n. (1 - \<mu>) ^ n * D)"
      using mu by (intro summable_mult2 summable_geometric) simp
    then have "summable (\<lambda>n. F (Suc n) j - F n j)"
      by (rule summable_comparison_test') (simp add: step that)
    then have "(\<lambda>n. \<Sum>k<n. F (Suc k) j - F k j) \<longlonglongrightarrow> (\<Sum>k. F (Suc k) j - F k j)"
      by (rule summable_LIMSEQ)
    then have "(\<lambda>n. F n j - F 0 j) \<longlonglongrightarrow> (\<Sum>k. F (Suc k) j - F k j)"
      by (simp add: sum_lessThan_telescope [of "\<lambda>k. F k j"])
    then have "(\<lambda>n. F n j - F 0 j + F 0 j) \<longlonglongrightarrow> (\<Sum>k. F (Suc k) j - F k j) + F 0 j"
      by (intro tendsto_add tendsto_const)
    then show ?thesis
      by auto
  qed
  define x where "x j = lim (\<lambda>n. F n j)" for j
  have lims: "(\<lambda>n. F n j) \<longlonglongrightarrow> x j" if "j < N" for j
    using conv [OF that] unfolding x_def by (auto simp: limI)
  have "x j = T x j" if "j < N" for j
  proof -
    have "(\<lambda>n. \<Sum>i<N. A i j * F n i) \<longlonglongrightarrow> (\<Sum>i<N. A i j * x i)"
      by (intro tendsto_sum tendsto_mult tendsto_const lims) simp
    then have "(\<lambda>n. c + (1 - \<mu>) * (\<Sum>i<N. A i j * F n i)) \<longlonglongrightarrow> c + (1 - \<mu>) * (\<Sum>i<N. A i j * x i)"
      by (intro tendsto_add tendsto_mult tendsto_const)
    then have "(\<lambda>n. F (Suc n) j) \<longlonglongrightarrow> T x j"
      by (simp add: F_Suc T_def)
    moreover have "(\<lambda>n. F (Suc n) j) \<longlonglongrightarrow> x j"
      using lims [OF that] by (rule LIMSEQ_Suc)
    ultimately show ?thesis
      by (rule LIMSEQ_unique [symmetric])
  qed
  then show ?thesis
    unfolding T_def by blast
qed

lemma weight_nonneg:
  assumes "nonneg_weights g" "i < length g"
  shows "0 \<le> weight g i j"
proof (cases "map_of (g ! i) j")
  case None
  then show ?thesis by (simp add: weight_def)
next
  case (Some x)
  then have "(j, x) \<in> set (g ! i)"
    by (rule map_of_SomeD)
  moreover have "g ! i \<in> set g"
    using assms(2) by simp
  ultimately have "0 \<le> x"
    using assms(1) by (fastforce simp: nonneg_weights_def list_all_iff)
  then show ?thesis
    by (simp add: weight_def Some)
qed

lemma random_walk_stochastic:
  assumes "random_walk_probabilities g = Inr (w, A, e, d)" "degree_positive g" "nonneg_weights g"
  shows "stochastic (length g) (\<lambda>i j. A ! i ! j)"
  unfolding stochastic_def
proof (intro allI impI conjI)
  note u = random_walk_unfold [OF assms(1)]
  fix a assume a: "a < length g"
  show "(\<Sum>l<length g. A ! a ! l) = 1"
    by (rule random_walk_row_stochastic [OF assms(1,2) a])
  have row: "sum_list (w ! a) = (\<Sum>j<length g. weight g a j)"
    using a by (subst sum_list_nth_upto [of _ "length g"]) (simp_all add: u(2))
  then have pos: "0 < sum_list (w ! a)"
    using degree_positive_row [OF assms(2) a] by simp
  fix l assume l: "l < length g"
  have "A ! a ! l = weight g a l * (1 / sum_list (w ! a))"
    using a l by (simp add: u(3), simp add: u(2))
  then show "0 \<le> A ! a ! l"
    using weight_nonneg [OF assms(3) a, of l] pos by simp
qed

lemma walk_system_row:
  assumes "random_walk_probabilities g = Inr (w, A, e, d)" "degree_positive g" "j < length g"
  shows "mat_vec (transposed_system (length g) e d \<mu>) x ! j =
         x ! j - (1 - \<mu>) * (\<Sum>i<length g. A ! i ! j * x ! i)"
proof -
  let ?N = "length g"
  let ?T = "transposed_system ?N e d \<mu>"
  have "mat_vec ?T x ! j = (\<Sum>c<?N. ?T ! j ! c * x ! c)"
    using assms(3) by (subst mat_vec_nth) (simp_all add: transposed_system_def)
  also have "\<dots> = (\<Sum>i<?N. (if i = j then x ! i else 0) - (1 - \<mu>) * (A ! i ! j * x ! i))"
    using assms(3)
    by (intro sum.cong refl)
      (auto simp: random_walk_transposed_system [OF assms(1,2)] algebra_simps)
  also have "\<dots> = (\<Sum>i<?N. if i = j then x ! i else 0) - (\<Sum>i<?N. (1 - \<mu>) * (A ! i ! j * x ! i))"
    by (rule sum_subtractf)
  also have "\<dots> = x ! j - (1 - \<mu>) * (\<Sum>i<?N. A ! i ! j * x ! i)"
    using assms(3) by (simp add: sum_distrib_left)
  finally show ?thesis .
qed

lemma walk_system_solves_iff:
  assumes "random_walk_probabilities g = Inr (w, A, e, d)" "degree_positive g"
  shows "mat_vec (transposed_system (length g) e d \<mu>) x = replicate (length g) c
     \<longleftrightarrow> (\<forall>j<length g. x ! j = c + (1 - \<mu>) * (\<Sum>i<length g. A ! i ! j * x ! i))"
proof -
  have "mat_vec (transposed_system (length g) e d \<mu>) x = replicate (length g) c
     \<longleftrightarrow> (\<forall>j<length g. mat_vec (transposed_system (length g) e d \<mu>) x ! j = c)"
    by (auto simp: list_eq_iff_nth_eq transposed_system_def)
  also have "\<dots> \<longleftrightarrow> (\<forall>j<length g. x ! j - (1 - \<mu>) * (\<Sum>i<length g. A ! i ! j * x ! i) = c)"
    by (simp add: walk_system_row [OF assms])
  also have "\<dots> \<longleftrightarrow> (\<forall>j<length g. x ! j = c + (1 - \<mu>) * (\<Sum>i<length g. A ! i ! j * x ! i))"
    by (simp add: diff_eq_eq)
  finally show ?thesis .
qed

lemma walk_system_unique_solution:
  assumes "random_walk_probabilities g = Inr (w, A, e, d)" "degree_positive g" "nonneg_weights g"
    and "0 < \<mu>" "\<mu> \<le> 1"
  shows "\<exists>x. length x = length g
     \<and> mat_vec (transposed_system (length g) e d \<mu>) x = replicate (length g) c
     \<and> (\<forall>y. length y = length g
            \<and> mat_vec (transposed_system (length g) e d \<mu>) y = replicate (length g) c
          \<longrightarrow> y = x)"
proof -
  let ?N = "length g"
  note st = random_walk_stochastic [OF assms(1-3)]
  note iff = walk_system_solves_iff [OF assms(1,2), of \<mu> _ c]
  obtain f where f: "\<forall>j<?N. f j = c + (1 - \<mu>) * (\<Sum>i<?N. A ! i ! j * f i)"
    using walk_equations_solvable [OF assms(4,5) st, of c] by blast
  define x where "x = map f [0..<?N]"
  have xf: "(\<Sum>i<?N. A ! i ! j * x ! i) = (\<Sum>i<?N. A ! i ! j * f i)" for j
    by (intro sum.cong refl) (simp add: x_def)
  have sol: "mat_vec (transposed_system ?N e d \<mu>) x = replicate ?N c"
    unfolding iff using f by (simp add: xf) (simp add: x_def)
  have uniq: "y = x"
    if "length y = ?N" "mat_vec (transposed_system ?N e d \<mu>) y = replicate ?N c" for y
  proof (rule nth_equalityI)
    show "length y = length x"
      using that(1) by (simp add: x_def)
    fix j assume "j < length y"
    then have j: "j < ?N" using that(1) by simp
    show "y ! j = x ! j"
      by (rule walk_equations_unique [OF assms(4,5) st _ _ j, where c = c])
        (use that(2) sol iff in auto)
  qed
  show ?thesis
    using sol uniq by (intro exI [of _ x]) (simp add: x_def)
qed

text \<open>
  C4, amended: for every mutation rate \<open>\<mu>\<close> in \<open>(0, 1]\<close> and every \<open>(e, d)\<close> derived from a
  degree-positive graph (with non-negative weights), \<^verbatim>\<open>location_weights\<close> builds
  \<open>tilde_A = I - (1 - \<mu>)\<cdot>e\<^sup>t\<cdot>diag(1/d)\<close> and hands the solver its transpose, the system
  \<open>(I - (1 - \<mu>)\<cdot>diag(1/d)\<cdot>e)\<cdot>x = (\<mu>/N)\<cdot>1\<close>. That system has exactly one solution \<open>x\<close>; a
  direct solver that meets its contract returns it, and the function returns
  \<open>v[k] = x[k]/d[k]\<close> for every location \<open>k\<close>.
\<close>

theorem location_weights_system:
  assumes "random_walk_probabilities g = Inr (w, A, e, d)" "degree_positive g" "nonneg_weights g"
    and "0 < \<mu>" "\<mu> \<le> 1"
    and "direct_ok spsolve (transposed_system (length g) e d \<mu>)
           (replicate (length g) (\<mu> / real (length g)))"
  shows "mat_T (tilde_A e d \<mu>) = transposed_system (length g) e d \<mu>
     \<and> (\<exists>x. length x = length g
           \<and> mat_vec (transposed_system (length g) e d \<mu>) x = replicate (length g) (\<mu> / real (length g))
           \<and> (\<forall>y. length y = length g
                  \<and> mat_vec (transposed_system (length g) e d \<mu>) y
                      = replicate (length g) (\<mu> / real (length g))
                \<longrightarrow> y = x)
           \<and> spsolve (mat_T (tilde_A e d \<mu>)) (replicate (nrows e) (\<mu> * 1 / real (nrows e))) = x
           \<and> location_weights spsolve e d \<mu> = map2 (/) x d
           \<and> length (location_weights spsolve e d \<mu>) = length g
           \<and> (\<forall>k<length g. location_weights spsolve e d \<mu> ! k = x ! k / d ! k))"
proof -
  let ?N = "length g"
  let ?T = "transposed_system ?N e d \<mu>"
  let ?b = "replicate ?N (\<mu> / real ?N)"
  note sh = random_walk_shapes [OF assms(1)]
  have T: "mat_T (tilde_A e d \<mu>) = ?T"
    by (simp add: tilde_A_square [OF sh(2,3)] mat_T_stated_system)
  have n: "nrows e = ?N"
    by (rule square_nrows [OF sh(2)])
  obtain x where x: "length x = ?N" "mat_vec ?T x = ?b"
    and uniq: "\<And>y. length y = ?N \<Longrightarrow> mat_vec ?T y = ?b \<Longrightarrow> y = x"
    using walk_system_unique_solution [OF assms(1-5), of "\<mu> / real ?N"] by blast
  have ok: "length (spsolve ?T ?b) = ?N" "mat_vec ?T (spsolve ?T ?b) = ?b"
    using assms(6) by (simp_all add: direct_ok_def)
  have s: "spsolve ?T ?b = x"
    by (rule uniq [OF ok])
  have lw: "location_weights spsolve e d \<mu> = map2 (/) x d"
    by (simp add: location_weights_eq [OF sh(2,3)] s)
  have "spsolve (mat_T (tilde_A e d \<mu>)) (replicate (nrows e) (\<mu> * 1 / real (nrows e))) = x"
    by (simp add: T n s)
  moreover have "length (location_weights spsolve e d \<mu>) = ?N"
    by (simp add: lw x(1) sh(3))
  moreover have "\<forall>k<?N. location_weights spsolve e d \<mu> ! k = x ! k / d ! k"
    by (simp add: lw x(1) sh(3))
  ultimately show ?thesis
    using T x uniq lw by blast
qed

lemma nonneg_weights_path3: "nonneg_weights path3"
  by code_simp

lemma length_path3: "length path3 = 3"
  by (simp add: path3_def)

theorem location_weights_system_witness:
  "random_walk_probabilities path3 =
     Inr ([[0, 1, 0], [1, 0, 1], [0, 1, 0]], [[0, 1, 0], [1 / 2, 0, 1 / 2], [0, 1, 0]],
          e_path3, d_path3)
   \<and> degree_positive path3 \<and> nonneg_weights path3 \<and> (0 :: real) < 1 / 2 \<and> (1 / 2 :: real) \<le> 1
   \<and> direct_ok spsolve_path3 (transposed_system (length path3) e_path3 d_path3 (1 / 2))
        (replicate (length path3) ((1 / 2) / real (length path3)))
   \<and> mat_T (tilde_A e_path3 d_path3 (1 / 2)) =
       [[1, - (1 / 4), 0], [- (1 / 2), 1, - (1 / 2)], [0, - (1 / 4), 1]]
   \<and> location_weights spsolve_path3 e_path3 d_path3 (1 / 2) = [5 / 6, 4 / 3, 5 / 6]"
proof -
  have mu: "(0 :: real) < 1 / 2" "(1 / 2 :: real) \<le> 1"
    by simp_all
  have ok: "direct_ok spsolve_path3 (transposed_system (length path3) e_path3 d_path3 (1 / 2))
        (replicate (length path3) ((1 / 2) / real (length path3)))"
    using direct_ok_path3 by (simp only: length_path3)
  note t = location_weights_system [OF random_walk_path3 degree_positive_path3
      nonneg_weights_path3 mu ok]
  have 1: "mat_T (tilde_A e_path3 d_path3 (1 / 2)) =
       [[1, - (1 / 4), 0], [- (1 / 2), 1, - (1 / 2)], [0, - (1 / 4), 1]]"
    using t [THEN conjunct1] by (simp only: length_path3 transposed_system_path3)
  from t [THEN conjunct2] obtain x where
    x: "spsolve_path3 (mat_T (tilde_A e_path3 d_path3 (1 / 2)))
          (replicate (nrows e_path3) (1 / 2 * 1 / real (nrows e_path3))) = x"
      "location_weights spsolve_path3 e_path3 d_path3 (1 / 2) = map2 (/) x d_path3"
    by blast
  have "x = [5 / 18, 4 / 9, 5 / 18]"
    using x(1) by (simp add: spsolve_path3_def)
  then have 2: "location_weights spsolve_path3 e_path3 d_path3 (1 / 2) = [5 / 6, 4 / 3, 5 / 6]"
    using x(2) by (simp add: d_path3_def)
  show ?thesis
    using random_walk_path3 degree_positive_path3 nonneg_weights_path3 mu ok 1 2 by blast
qed

section \<open>Identity by state\<close>

subsection \<open>The pair equations have at most one solution\<close>

lemma stochastic_average_le:
  assumes "stochastic N A" "a < N" "\<And>l. l < N \<Longrightarrow> \<bar>y l\<bar> \<le> m"
  shows "\<bar>\<Sum>l<N. A a l * y l\<bar> \<le> m"
proof -
  have nn: "0 \<le> A a l" if "l < N" for l
    using assms(1,2) that by (simp add: stochastic_def)
  have "\<bar>\<Sum>l<N. A a l * y l\<bar> \<le> (\<Sum>l<N. \<bar>A a l * y l\<bar>)"
    by (rule sum_abs)
  also have "\<dots> \<le> (\<Sum>l<N. A a l * m)"
    by (intro sum_mono) (simp add: abs_mult nn assms(3) mult_left_mono)
  also have "\<dots> = m"
    using assms(1,2) by (simp add: sum_distrib_right [symmetric] stochastic_def)
  finally show ?thesis .
qed

lemma homogeneous_zero:
  assumes mu: "0 < \<mu>" "\<mu> \<le> 1" and st: "stochastic N A"
    and diag: "\<And>a. a < N \<Longrightarrow> y a a = 0"
    and off: "\<And>a b. a < N \<Longrightarrow> b < N \<Longrightarrow> a \<noteq> b \<Longrightarrow>
      y a b = ((1 - \<mu>) / 2) * ((\<Sum>l<N. A a l * y l b) + (\<Sum>k<N. A b k * y a k))"
    and "a < N" "b < N"
  shows "y a b = 0"
proof -
  define S where "S = (\<lambda>(a, b). \<bar>y a b\<bar>) ` ({..<N} \<times> {..<N})"
  have fin: "finite S" and ne: "S \<noteq> {}"
    using \<open>a < N\<close> by (auto simp: S_def)
  define m where "m = Max S"
  have le: "\<bar>y a b\<bar> \<le> m" if "a < N" "b < N" for a b
    unfolding m_def using that by (intro Max_ge fin) (auto simp: S_def)
  have "m \<in> S"
    unfolding m_def by (rule Max_in [OF fin ne])
  then obtain a0 b0 where ab: "a0 < N" "b0 < N" "m = \<bar>y a0 b0\<bar>"
    by (auto simp: S_def)
  have "m \<le> (1 - \<mu>) * m"
  proof (cases "a0 = b0")
    case True
    then have "m = 0"
      using ab diag by simp
    then show ?thesis by simp
  next
    case False
    have 1: "\<bar>\<Sum>l<N. A a0 l * y l b0\<bar> \<le> m"
      by (rule stochastic_average_le [OF st ab(1)]) (simp add: le ab(2))
    have 2: "\<bar>\<Sum>k<N. A b0 k * y a0 k\<bar> \<le> m"
      by (rule stochastic_average_le [OF st ab(2)]) (simp add: le ab(1))
    have "m = \<bar>((1 - \<mu>) / 2) * ((\<Sum>l<N. A a0 l * y l b0) + (\<Sum>k<N. A b0 k * y a0 k))\<bar>"
      using off [OF ab(1,2) False] ab(3) by simp
    also have "\<dots> = ((1 - \<mu>) / 2) * \<bar>(\<Sum>l<N. A a0 l * y l b0) + (\<Sum>k<N. A b0 k * y a0 k)\<bar>"
      using mu by (simp add: abs_mult)
    also have "\<dots> \<le> ((1 - \<mu>) / 2) * (m + m)"
      using mu 1 2 by (intro mult_left_mono) auto
    finally show ?thesis by simp
  qed
  then have "\<mu> * m \<le> 0"
    by (simp add: algebra_simps)
  then have "m \<le> 0"
    using mu(1) by (simp add: mult_le_0_iff)
  then show ?thesis
    using le [OF \<open>a < N\<close> \<open>b < N\<close>] by simp
qed

lemma pair_equations_unique:
  assumes "0 < \<mu>" "\<mu> \<le> 1" "stochastic N A"
    and "pair_equations N A \<mu> \<phi>" "pair_equations N A \<mu> \<psi>" "a < N" "b < N"
  shows "\<phi> a b = \<psi> a b"
proof -
  have "\<phi> a b - \<psi> a b = 0"
  proof (rule homogeneous_zero [OF assms(1-3) _ _ assms(6,7), where y = "\<lambda>a b. \<phi> a b - \<psi> a b"])
    show "\<phi> a a - \<psi> a a = 0" if "a < N" for a
      using assms(4,5) that by (simp add: pair_equations_def)
    show "\<phi> a b - \<psi> a b =
        ((1 - \<mu>) / 2) * ((\<Sum>l<N. A a l * (\<phi> l b - \<psi> l b)) + (\<Sum>k<N. A b k * (\<phi> a k - \<psi> a k)))"
      if "a < N" "b < N" "a \<noteq> b" for a b
    proof -
      have "\<phi> a b = \<mu> / 2 + ((1 - \<mu>) / 2) * ((\<Sum>l<N. A a l * \<phi> l b) + (\<Sum>k<N. A b k * \<phi> a k))"
        and "\<psi> a b = \<mu> / 2 + ((1 - \<mu>) / 2) * ((\<Sum>l<N. A a l * \<psi> l b) + (\<Sum>k<N. A b k * \<psi> a k))"
        using assms(4,5) that by (simp_all add: pair_equations_def)
      then show ?thesis
        by (simp add: algebra_simps sum_subtractf)
    qed
  qed
  then show ?thesis by simp
qed

lemma pair_equations_swap:
  assumes "pair_equations N A \<mu> \<phi>"
  shows "pair_equations N A \<mu> (\<lambda>a b. \<phi> b a)"
  using assms unfolding pair_equations_def
  by (auto simp: add.commute)

lemma pair_equations_symmetric:
  assumes "0 < \<mu>" "\<mu> \<le> 1" "stochastic N A" "pair_equations N A \<mu> \<phi>" "a < N" "b < N"
  shows "\<phi> a b = \<phi> b a"
  by (rule pair_equations_unique [OF assms(1-4) pair_equations_swap [OF assms(4)] assms(5,6)])


subsection \<open>The pair equations have a solution\<close>

lemma pair_iterate_exists:
  assumes mu: "0 < \<mu>" "\<mu> \<le> 1" and st: "stochastic N A"
  shows "\<exists>\<phi>. pair_equations N A \<mu> \<phi>"
proof -
  define T where "T \<phi> a b =
    (if a = b then 1
     else \<mu> / 2 + ((1 - \<mu>) / 2) * ((\<Sum>l<N. A a l * \<phi> l b) + (\<Sum>k<N. A b k * \<phi> a k)))"
    for \<phi> :: "nat \<Rightarrow> nat \<Rightarrow> real" and a b
  define F where "F n = (T ^^ n) (\<lambda>a b. 0)" for n
  have F_Suc: "F (Suc n) = T (F n)" for n
    by (simp add: F_def)
  have step: "\<bar>F (Suc n) a b - F n a b\<bar> \<le> (1 - \<mu>) ^ n" if "a < N" "b < N" for n a b
    using that
  proof (induction n arbitrary: a b)
    case 0
    then show ?case
      using mu by (simp add: F_def T_def)
  next
    case (Suc n)
    show ?case
    proof (cases "a = b")
      case True
      then show ?thesis
        using mu by (simp add: F_Suc T_def)
    next
      case False
      have 1: "\<bar>\<Sum>l<N. A a l * (F (Suc n) l b - F n l b)\<bar> \<le> (1 - \<mu>) ^ n"
        by (rule stochastic_average_le [OF st Suc.prems(1)]) (simp add: Suc.IH Suc.prems)
      have 2: "\<bar>\<Sum>k<N. A b k * (F (Suc n) a k - F n a k)\<bar> \<le> (1 - \<mu>) ^ n"
        by (rule stochastic_average_le [OF st Suc.prems(2)]) (simp add: Suc.IH Suc.prems)
      have "F (Suc (Suc n)) a b - F (Suc n) a b =
          ((1 - \<mu>) / 2) * ((\<Sum>l<N. A a l * (F (Suc n) l b - F n l b))
                            + (\<Sum>k<N. A b k * (F (Suc n) a k - F n a k)))"
        using False by (simp add: F_Suc [of "Suc n"] F_Suc [of n] T_def algebra_simps sum_subtractf)
      then have "\<bar>F (Suc (Suc n)) a b - F (Suc n) a b\<bar> =
          \<bar>((1 - \<mu>) / 2) * ((\<Sum>l<N. A a l * (F (Suc n) l b - F n l b))
                            + (\<Sum>k<N. A b k * (F (Suc n) a k - F n a k)))\<bar>"
        by (simp only:)
      also have "\<dots> = ((1 - \<mu>) / 2) * \<bar>(\<Sum>l<N. A a l * (F (Suc n) l b - F n l b))
                            + (\<Sum>k<N. A b k * (F (Suc n) a k - F n a k))\<bar>"
        using mu by (simp add: abs_mult)
      also have "\<dots> \<le> ((1 - \<mu>) / 2) * ((1 - \<mu>) ^ n + (1 - \<mu>) ^ n)"
        using mu 1 2 by (intro mult_left_mono) auto
      finally show ?thesis by simp
    qed
  qed
  have conv: "\<exists>L. (\<lambda>n. F n a b) \<longlonglongrightarrow> L" if "a < N" "b < N" for a b
  proof -
    have "summable (\<lambda>n. (1 - \<mu>) ^ n)"
      using mu by (intro summable_geometric) simp
    then have "summable (\<lambda>n. F (Suc n) a b - F n a b)"
      by (rule summable_comparison_test') (simp add: step that)
    then have "(\<lambda>n. \<Sum>k<n. F (Suc k) a b - F k a b) \<longlonglongrightarrow> (\<Sum>k. F (Suc k) a b - F k a b)"
      by (rule summable_LIMSEQ)
    then have "(\<lambda>n. F n a b - F 0 a b) \<longlonglongrightarrow> (\<Sum>k. F (Suc k) a b - F k a b)"
      by (simp add: sum_lessThan_telescope [of "\<lambda>k. F k a b"])
    then have "(\<lambda>n. F n a b - F 0 a b + F 0 a b) \<longlonglongrightarrow> (\<Sum>k. F (Suc k) a b - F k a b) + F 0 a b"
      by (intro tendsto_add tendsto_const)
    then show ?thesis
      by auto
  qed
  define \<phi> where "\<phi> a b = lim (\<lambda>n. F n a b)" for a b
  have lims: "(\<lambda>n. F n a b) \<longlonglongrightarrow> \<phi> a b" if "a < N" "b < N" for a b
    using conv [OF that] unfolding \<phi>_def by (auto simp: limI)
  have fp: "\<phi> a b = T \<phi> a b" if "a < N" "b < N" for a b
  proof -
    have "(\<lambda>n. T (F n) a b) \<longlonglongrightarrow> T \<phi> a b"
      unfolding T_def using that
      by (auto intro!: tendsto_intros lims)
    then have "(\<lambda>n. F (Suc n) a b) \<longlonglongrightarrow> T \<phi> a b"
      by (simp add: F_Suc)
    moreover have "(\<lambda>n. F (Suc n) a b) \<longlonglongrightarrow> \<phi> a b"
      using lims [OF that] by (rule LIMSEQ_Suc)
    ultimately show ?thesis
      by (rule LIMSEQ_unique [symmetric])
  qed
  have "pair_equations N A \<mu> \<phi>"
    unfolding pair_equations_def
  proof (intro conjI allI impI)
    fix a assume "a < N"
    then show "\<phi> a a = 1"
      using fp [of a a] by (simp add: T_def)
  next
    fix a b assume "a < N" "b < N" "a \<noteq> b"
    then show "\<phi> a b = \<mu> / 2 + ((1 - \<mu>) / 2) * ((\<Sum>l<N. A a l * \<phi> l b) + (\<Sum>k<N. A b k * \<phi> a k))"
      using fp [of a b] by (simp add: T_def)
  qed
  then show ?thesis by blast
qed

subsection \<open>The assembled system\<close>

lemma sum_pairs: "(\<Sum>c<N * N. f c) = (\<Sum>k<N. \<Sum>l<N. f (k * N + l) :: real)" for N :: nat
proof -
  have block: "sum f {k * N..<k * N + N} = (\<Sum>l<N. f (k * N + l))" for k
  proof -
    have "sum f {0 + k * N..<N + k * N} = (\<Sum>l\<in>{0..<N}. f (l + k * N))"
      by (rule sum.shift_bounds_nat_ivl)
    then show ?thesis
      by (simp add: add.commute atLeast0LessThan)
  qed
  have "(\<Sum>c<N * N. f c) = (\<Sum>k<N. sum f {k * N..<k * N + N})"
    by (rule sum.nat_group [symmetric])
  then show ?thesis
    by (simp only: block)
qed

lemma pair_index: "l < N \<Longrightarrow> (k * N + l) div N = k \<and> (k * N + l) mod N = l" for k l N :: nat
  by simp

lemma pair_less: "k < N \<Longrightarrow> l < N \<Longrightarrow> k * N + l < N * N" for k l N :: nat
proof -
  assume "k < N" "l < N"
  then have "k * N + l < k * N + N" "Suc k \<le> N" by simp_all
  then have "k * N + N \<le> N * N"
    by (metis mult_Suc mult_le_mono1 add.commute)
  with \<open>k * N + l < k * N + N\<close> show ?thesis by linarith
qed

lemma zero_row: "map (\<lambda>x. if x \<noteq> 0 then 0 else x) row = replicate (length row) (0 :: real)"
  by (induction row) auto

lemma boundary_loop_rows:
  assumes "boundary_loop N is (M, b) = (M', b')"
  shows "length M' = length M \<and> length b' = length b
     \<and> (\<forall>r<length M. M' ! r =
           (if r \<in> (\<lambda>i. i * N + i) ` set is then unit_row (length (M ! r)) r else M ! r))
     \<and> (\<forall>r<length b. b' ! r = (if r \<in> (\<lambda>i. i * N + i) ` set is then 1 else b ! r))"
  using assms
proof (induction "is" arbitrary: M b)
  case Nil
  then show ?case by simp
next
  case (Cons i rest)
  let ?row = "i * N + i"
  let ?M2 = "M[?row := unit_row (length (M ! ?row)) ?row]"
  let ?b1 = "b[?row := 1]"
  have "M[?row := (M[?row := Z] ! ?row)[?row := 1]] = M[?row := Z[?row := 1]]" for Z
    by (cases "?row < length M") (simp_all add: list_update_beyond)
  then have "boundary_loop N rest (?M2, ?b1) = (M', b')"
    using Cons.prems by (simp add: Let_def zero_row unit_row_def)
  from Cons.IH [OF this] have ih: "length M' = length M" "length b' = length b"
    "\<And>r. r < length M \<Longrightarrow> M' ! r =
        (if r \<in> (\<lambda>i. i * N + i) ` set rest then unit_row (length (?M2 ! r)) r else ?M2 ! r)"
    "\<And>r. r < length b \<Longrightarrow> b' ! r = (if r \<in> (\<lambda>i. i * N + i) ` set rest then 1 else ?b1 ! r)"
    by simp_all
  have len: "length (?M2 ! r) = length (M ! r)" if "r < length M" for r
    using that by (cases "r = ?row") (simp_all add: unit_row_def)
  show ?case
  proof (intro conjI allI impI)
    show "length M' = length M" "length b' = length b"
      by (rule ih)+
  next
    fix r assume r: "r < length M"
    show "M' ! r = (if r \<in> (\<lambda>i. i * N + i) ` set (i # rest) then unit_row (length (M ! r)) r else M ! r)"
      using ih(3) [OF r] len [OF r] r by (cases "r = ?row") auto
  next
    fix r assume r: "r < length b"
    show "b' ! r = (if r \<in> (\<lambda>i. i * N + i) ` set (i # rest) then 1 else b ! r)"
      using ih(4) [OF r] r by (cases "r = ?row") auto
  qed
qed

lemma diagonal_index:
  assumes "r < N * N"
  shows "r \<in> (\<lambda>i. i * N + i) ` set [0..<N] \<longleftrightarrow> r div N = r mod N"
proof
  assume "r \<in> (\<lambda>i. i * N + i) ` set [0..<N]"
  then obtain i where "i < N" "r = i * N + i" by auto
  then show "r div N = r mod N" by simp
next
  assume e: "r div N = r mod N"
  have "0 < N" using assms by (cases N) auto
  then have "r mod N < N" by simp
  moreover have "r = (r mod N) * N + r mod N"
    using e by (metis div_mult_mod_eq)
  ultimately show "r \<in> (\<lambda>i. i * N + i) ` set [0..<N]"
    by (auto intro!: image_eqI [where x = "r mod N"])
qed

lemma map2_map_map: "map2 h (map f xs) (map g xs) = map (\<lambda>x. h (f x) (g x)) xs"
  by (induction xs) simp_all

lemma mat_add_mat: "mat_add (mat r c f) (mat r c g) = mat r c (\<lambda>i j. f i j + g i j)"
  by (simp add: mat_add_def mat_def map2_map_map)

lemma mat_sub_mat: "mat_sub (mat r c f) (mat r c g) = mat r c (\<lambda>i j. f i j - g i j)"
  by (simp add: mat_sub_def mat_def map2_map_map)

lemma scale_mat: "scale a (mat r c f) = mat r c (\<lambda>i j. a * f i j)"
  by (simp add: scale_def mat_def)

lemma ncols_mat_square [simp]: "ncols (mat N N f) = N"
  by (rule square_ncols [OF square_mat])

lemma div_less_square: "r < N * N \<Longrightarrow> r div N < N" for r N :: nat
  by (simp add: less_mult_imp_div_less)

lemma mod_less_square: "r < N * N \<Longrightarrow> r mod N < N" for r N :: nat
  by (cases N) simp_all

lemma kron_eye_left:
  assumes "square N A"
  shows "kron (eye N) A =
         mat (N * N) (N * N) (\<lambda>r c. if r div N = c div N then A ! (r mod N) ! (c mod N) else 0)"
  unfolding kron_def eye_def
  by (simp add: square_nrows [OF assms] square_ncols [OF assms])
     (intro mat_cong, simp add: div_less_square)

lemma kron_eye_right:
  assumes "square N A"
  shows "kron A (eye N) =
         mat (N * N) (N * N) (\<lambda>r c. if r mod N = c mod N then A ! (r div N) ! (c div N) else 0)"
  unfolding kron_def eye_def
  by (simp add: square_nrows [OF assms] square_ncols [OF assms])
     (intro mat_cong, simp add: mod_less_square)

lemma pair_system_unfold:
  assumes "square N A"
  shows "pair_system A \<mu> =
         boundary_loop N [0..<N]
           (mat (N * N) (N * N) (pair_entry N A \<mu>), replicate (N * N) (\<mu> * (1 / 2)))"
proof -
  have "mat_sub (eye (N * N))
          (scale ((1 - \<mu>) * (1 / 2)) (mat_add (kron (eye N) A) (kron A (eye N))))
        = mat (N * N) (N * N) (pair_entry N A \<mu>)"
    unfolding kron_eye_left [OF assms] kron_eye_right [OF assms] mat_add_mat scale_mat
    by (simp add: eye_def mat_sub_mat, intro mat_cong, simp add: pair_entry_def)
  then show ?thesis
    by (simp add: pair_system_def square_nrows [OF assms] power2_eq_square)
qed

lemma unit_row_sum:
  assumes "r < n"
  shows "(\<Sum>c<n. unit_row n r ! c * x ! c) = x ! r"
proof -
  have "(\<Sum>c<n. unit_row n r ! c * x ! c) = (\<Sum>c<n. if c = r then x ! c else 0)"
    by (intro sum.cong refl) (simp add: unit_row_def nth_list_update)
  also have "\<dots> = x ! r"
    using assms by simp
  finally show ?thesis .
qed

lemma pair_entry_sum:
  assumes "i < N" "j < N"
  shows "(\<Sum>c<N * N. pair_entry N A \<mu> (i * N + j) c * x ! c) =
         x ! (i * N + j)
         - ((1 - \<mu>) * (1 / 2))
           * ((\<Sum>l<N. A ! j ! l * x ! (i * N + l)) + (\<Sum>k<N. A ! i ! k * x ! (k * N + j)))"
proof -
  let ?r = "i * N + j"
  have r: "?r < N * N"
    by (rule pair_less [OF assms])
  have 1: "(\<Sum>c<N * N. (if ?r = c then 1 else 0) * x ! c) = x ! ?r"
  proof -
    have "(\<Sum>c<N * N. (if ?r = c then 1 else 0) * x ! c) = (\<Sum>c<N * N. if c = ?r then x ! c else 0)"
      by (intro sum.cong refl) auto
    then show ?thesis using r by simp
  qed
  have 2: "(\<Sum>c<N * N. (if ?r div N = c div N then A ! (?r mod N) ! (c mod N) else 0) * x ! c)
        = (\<Sum>l<N. A ! j ! l * x ! (i * N + l))"
  proof -
    have "(\<Sum>c<N * N. (if ?r div N = c div N then A ! (?r mod N) ! (c mod N) else 0) * x ! c)
        = (\<Sum>k<N. \<Sum>l<N. if k = i then A ! j ! l * x ! (k * N + l) else 0)"
      unfolding sum_pairs using assms
      by (intro sum.cong refl) auto
    also have "\<dots> = (\<Sum>k<N. if k = i then (\<Sum>l<N. A ! j ! l * x ! (k * N + l)) else 0)"
      by (intro sum.cong refl) simp
    also have "\<dots> = (\<Sum>l<N. A ! j ! l * x ! (i * N + l))"
      using assms by simp
    finally show ?thesis .
  qed
  have 3: "(\<Sum>c<N * N. (if ?r mod N = c mod N then A ! (?r div N) ! (c div N) else 0) * x ! c)
        = (\<Sum>k<N. A ! i ! k * x ! (k * N + j))"
  proof -
    have "(\<Sum>c<N * N. (if ?r mod N = c mod N then A ! (?r div N) ! (c div N) else 0) * x ! c)
        = (\<Sum>k<N. \<Sum>l<N. if l = j then A ! i ! k * x ! (k * N + l) else 0)"
      unfolding sum_pairs using assms
      by (intro sum.cong refl) auto
    also have "\<dots> = (\<Sum>k<N. A ! i ! k * x ! (k * N + j))"
      using assms by (intro sum.cong refl) simp
    finally show ?thesis .
  qed
  have "(\<Sum>c<N * N. pair_entry N A \<mu> ?r c * x ! c) =
        (\<Sum>c<N * N. (if ?r = c then 1 else 0) * x ! c)
        - ((1 - \<mu>) * (1 / 2))
          * ((\<Sum>c<N * N. (if ?r div N = c div N then A ! (?r mod N) ! (c mod N) else 0) * x ! c)
             + (\<Sum>c<N * N. (if ?r mod N = c mod N then A ! (?r div N) ! (c div N) else 0) * x ! c))"
    unfolding pair_entry_def
    by (simp only: sum_distrib_left sum.distrib [symmetric] sum_subtractf [symmetric])
       (intro sum.cong refl, simp add: algebra_simps)
  then show ?thesis
    by (simp only: 1 2 3)
qed

lemma pair_system_shape:
  assumes "square N A" "pair_system A \<mu> = (M, b)"
  shows "length M = N * N" "length b = N * N"
    and "\<And>i j. i < N \<Longrightarrow> j < N \<Longrightarrow>
          M ! (i * N + j) =
            (if i = j then unit_row (N * N) (i * N + j)
             else map (pair_entry N A \<mu> (i * N + j)) [0..<N * N])"
    and "\<And>i j. i < N \<Longrightarrow> j < N \<Longrightarrow> b ! (i * N + j) = (if i = j then 1 else \<mu> * (1 / 2))"
proof -
  let ?M0 = "mat (N * N) (N * N) (pair_entry N A \<mu>)"
  let ?b0 = "replicate (N * N) (\<mu> * (1 / 2))"
  have "boundary_loop N [0..<N] (?M0, ?b0) = (M, b)"
    using assms(2) by (simp add: pair_system_unfold [OF assms(1)])
  note rows = boundary_loop_rows [OF this]
  from rows show "length M = N * N" "length b = N * N"
    by simp_all
  fix i j assume ij: "i < N" "j < N"
  let ?r = "i * N + j"
  have r: "?r < N * N"
    by (rule pair_less [OF ij])
  have d: "?r \<in> (\<lambda>i. i * N + i) ` set [0..<N] \<longleftrightarrow> i = j"
    using diagonal_index [OF r] ij by simp
  have row0: "?M0 ! ?r = map (pair_entry N A \<mu> ?r) [0..<N * N]"
    using r by (simp add: mat_def)
  have "M ! ?r = (if ?r \<in> (\<lambda>i. i * N + i) ` set [0..<N]
      then unit_row (length (?M0 ! ?r)) ?r else ?M0 ! ?r)"
    using rows r by simp
  then have "M ! ?r = (if i = j then unit_row (length (?M0 ! ?r)) ?r else ?M0 ! ?r)"
    by (simp only: d)
  then show "M ! ?r = (if i = j then unit_row (N * N) ?r else map (pair_entry N A \<mu> ?r) [0..<N * N])"
    by (simp only: row0 length_map length_upt diff_zero)
  have "b ! ?r = (if ?r \<in> (\<lambda>i. i * N + i) ` set [0..<N] then 1 else ?b0 ! ?r)"
    using rows r by simp
  then have "b ! ?r = (if i = j then 1 else ?b0 ! ?r)"
    by (simp only: d)
  then show "b ! ?r = (if i = j then 1 else \<mu> * (1 / 2))"
    using r by simp
qed

lemma pair_system_row:
  assumes "square N A" "pair_system A \<mu> = (M, b)" "i < N" "j < N"
  shows "mat_vec M x ! (i * N + j) =
         (if i = j then x ! (i * N + j)
          else x ! (i * N + j)
               - ((1 - \<mu>) * (1 / 2))
                 * ((\<Sum>l<N. A ! j ! l * x ! (i * N + l)) + (\<Sum>k<N. A ! i ! k * x ! (k * N + j))))"
proof -
  note sh = pair_system_shape [OF assms(1,2)]
  let ?r = "i * N + j"
  have r: "?r < N * N"
    by (rule pair_less [OF assms(3,4)])
  show ?thesis
  proof (cases "i = j")
    case True
    have "M ! ?r = unit_row (N * N) ?r"
      using sh(3) [OF assms(3,4)] True by simp
    then have "mat_vec M x ! ?r = (\<Sum>c<N * N. unit_row (N * N) ?r ! c * x ! c)"
      using r by (simp add: mat_vec_nth sh(1) unit_row_def)
    then have "mat_vec M x ! ?r = x ! ?r"
      by (simp only: unit_row_sum [OF r])
    then show ?thesis
      using True by simp
  next
    case False
    have "M ! ?r = map (pair_entry N A \<mu> ?r) [0..<N * N]"
      using sh(3) [OF assms(3,4)] False by simp
    then have "mat_vec M x ! ?r = (\<Sum>c<N * N. pair_entry N A \<mu> ?r c * x ! c)"
      using r by (simp add: mat_vec_nth sh(1))
    then show ?thesis
      using False by (simp only: pair_entry_sum [OF assms(3,4)] if_False)
  qed
qed

lemma all_pairs: "(\<forall>r<N * N. P r) \<longleftrightarrow> (\<forall>i<N. \<forall>j<N. P (i * N + j))" for N :: nat
proof
  assume "\<forall>r<N * N. P r"
  then show "\<forall>i<N. \<forall>j<N. P (i * N + j)"
    by (simp add: pair_less)
next
  assume a: "\<forall>i<N. \<forall>j<N. P (i * N + j)"
  show "\<forall>r<N * N. P r"
  proof (intro allI impI)
    fix r assume "r < N * N"
    then have "r div N < N" "r mod N < N"
      by (simp_all add: div_less_square mod_less_square)
    with a have "P (r div N * N + r mod N)" by blast
    then show "P r" by simp
  qed
qed

lemma row_equation_iff:
  "((if c then X else X - ((1 - \<mu>) * (1 / 2)) * (S1 + S2)) = (if c then 1 else \<mu> * (1 / 2)))
   \<longleftrightarrow> (if c then X = 1 else X = \<mu> / 2 + ((1 - \<mu>) / 2) * (S1 + S2 :: real))"
proof (cases c)
  case True
  then show ?thesis by simp
next
  case False
  define Y where "Y = (1 - \<mu>) * (S1 + S2)"
  have "(X - Y / 2 = \<mu> / 2) \<longleftrightarrow> (X = \<mu> / 2 + Y / 2)"
    by linarith
  then show ?thesis
    using False by (simp add: Y_def)
qed

lemma pair_system_solves_iff:
  assumes "square N A" "pair_system A \<mu> = (M, b)"
  shows "mat_vec M x = b \<longleftrightarrow> pair_equations N (\<lambda>i j. A ! i ! j) \<mu> (\<lambda>a b. x ! (a + b * N))"
proof -
  note sh = pair_system_shape [OF assms]
  have "mat_vec M x = b \<longleftrightarrow> (\<forall>r<N * N. mat_vec M x ! r = b ! r)"
    by (simp add: list_eq_iff_nth_eq sh(1,2))
  also have "\<dots> \<longleftrightarrow> (\<forall>i<N. \<forall>j<N. mat_vec M x ! (i * N + j) = b ! (i * N + j))"
    by (rule all_pairs)
  also have "\<dots> \<longleftrightarrow> (\<forall>i<N. \<forall>j<N.
      (if i = j then x ! (i * N + j)
       else x ! (i * N + j)
            - ((1 - \<mu>) * (1 / 2))
              * ((\<Sum>l<N. A ! j ! l * x ! (i * N + l)) + (\<Sum>k<N. A ! i ! k * x ! (k * N + j))))
      = (if i = j then 1 else \<mu> * (1 / 2)))"
    by (simp add: pair_system_row [OF assms] sh(4))
  also have "\<dots> \<longleftrightarrow> (\<forall>i<N. \<forall>j<N.
      (if i = j then x ! (j + i * N) = 1
       else x ! (j + i * N) =
            \<mu> / 2 + ((1 - \<mu>) / 2)
              * ((\<Sum>l<N. A ! j ! l * x ! (l + i * N)) + (\<Sum>k<N. A ! i ! k * x ! (j + k * N)))))"
    by (simp only: row_equation_iff add.commute [of "_ * N"])
  also have "\<dots> \<longleftrightarrow> pair_equations N (\<lambda>i j. A ! i ! j) \<mu> (\<lambda>a b. x ! (a + b * N))"
    unfolding pair_equations_def by (intro iffI conjI allI impI) auto
  finally show ?thesis .
qed

subsection \<open>Solver contracts\<close>

lemma residual_sum: "residual M x b = (\<Sum>r<length b. (mat_vec M x ! r - b ! r)\<^sup>2)"
  by (simp add: residual_def sum_list_upt)

lemma residual_nonneg: "0 \<le> residual M x b"
  by (simp add: residual_sum sum_nonneg)

lemma residual_zero_iff:
  assumes "length M = length b"
  shows "residual M x b = 0 \<longleftrightarrow> mat_vec M x = b"
proof -
  have "residual M x b = 0 \<longleftrightarrow> (\<forall>r\<in>{..<length b}. (mat_vec M x ! r - b ! r)\<^sup>2 = 0)"
    unfolding residual_sum by (rule sum_nonneg_eq_0_iff) simp_all
  also have "\<dots> \<longleftrightarrow> mat_vec M x = b"
    using assms by (auto simp: list_eq_iff_nth_eq)
  finally show ?thesis .
qed

lemma least_squares_exact:
  assumes "least_squares_ok lsqr M b" "length M = length b"
    and "length y = length b" "mat_vec M y = b"
  shows "mat_vec M (lsqr M b) = b"
proof -
  have "residual M (lsqr M b) b \<le> residual M y b"
    using assms(1,3) by (simp add: least_squares_ok_def)
  also have "residual M y b = 0"
    using assms(2,4) by (simp add: residual_zero_iff)
  finally have "residual M (lsqr M b) b = 0"
    using residual_nonneg [of M "lsqr M b" b] by simp
  then show ?thesis
    using assms(2) by (simp add: residual_zero_iff)
qed

lemma exact_least_squares:
  assumes "length (lsqr M b) = length b" "mat_vec M (lsqr M b) = b" "length M = length b"
  shows "least_squares_ok lsqr M b"
  using assms residual_nonneg [of M _ b]
  by (simp add: least_squares_ok_def residual_zero_iff [THEN iffD2])

subsection \<open>From the assembled system to the matrix returned\<close>

lemma row_stochastic_square: "row_stochastic N A \<Longrightarrow> square N A"
  by (simp add: row_stochastic_def)

lemma row_stochastic_nth:
  assumes "row_stochastic N A"
  shows "stochastic N (\<lambda>i j. A ! i ! j)"
  unfolding stochastic_def
proof (intro allI impI conjI)
  fix a assume a: "a < N"
  have sq: "square N A"
    using assms by (rule row_stochastic_square)
  have row: "A ! a \<in> set A" "length (A ! a) = N"
    using a sq by (simp_all add: square_length square_row)
  then have *: "list_all (\<lambda>x. 0 \<le> x) (A ! a)" "sum_list (A ! a) = 1"
    using assms by (auto simp: row_stochastic_def list_all_iff)
  show "(\<Sum>l<N. A ! a ! l) = 1"
    using *(2) row(2) by (simp add: sum_list_nth_upto)
  fix l assume "l < N"
  then show "0 \<le> A ! a ! l"
    using *(1) row(2) by (simp add: list_all_length)
qed

lemma pair_equations_cong:
  assumes "\<And>a b. a < N \<Longrightarrow> b < N \<Longrightarrow> \<phi> a b = \<psi> a b"
  shows "pair_equations N A \<mu> \<phi> = pair_equations N A \<mu> \<psi>"
proof -
  have "(\<Sum>l<N. A a l * \<phi> l b) = (\<Sum>l<N. A a l * \<psi> l b)" if "b < N" for a b
    using that by (intro sum.cong refl) (simp add: assms)
  moreover have "(\<Sum>k<N. A b k * \<phi> a k) = (\<Sum>k<N. A b k * \<psi> a k)" if "a < N" for a b
    using that by (intro sum.cong refl) (simp add: assms)
  ultimately show ?thesis
    unfolding pair_equations_def by (simp add: assms cong: conj_cong)
qed

lemma pair_system_solvable:
  assumes "row_stochastic N A" "0 < \<mu>" "\<mu> \<le> 1" "pair_system A \<mu> = (M, b)"
  shows "\<exists>y. length y = N * N \<and> mat_vec M y = b"
proof -
  obtain \<phi> where \<phi>: "pair_equations N (\<lambda>i j. A ! i ! j) \<mu> \<phi>"
    using pair_iterate_exists [OF assms(2,3) row_stochastic_nth [OF assms(1)]] by blast
  define y where "y = map (\<lambda>r. \<phi> (r mod N) (r div N)) [0..<N * N]"
  have "y ! (a + b * N) = \<phi> a b" if "a < N" "b < N" for a b
  proof -
    have "b * N + a < N * N"
      by (rule pair_less [OF that(2,1)])
    then show ?thesis
      using that by (simp add: y_def add.commute)
  qed
  then have "pair_equations N (\<lambda>i j. A ! i ! j) \<mu> (\<lambda>a b. y ! (a + b * N))"
    using \<phi> pair_equations_cong [of N "\<lambda>a b. y ! (a + b * N)" \<phi>] by simp
  then have "mat_vec M y = b"
    using pair_system_solves_iff [OF row_stochastic_square [OF assms(1)] assms(4)] by simp
  then show ?thesis
    by (intro exI [of _ y]) (simp add: y_def)
qed

lemma solver_output:
  assumes "row_stochastic N A" "0 < \<mu>" "\<mu> \<le> 1" "pair_system A \<mu> = (M, b)"
  shows "direct_ok spsolve M b \<Longrightarrow> length (spsolve M b) = N * N \<and> mat_vec M (spsolve M b) = b"
    and "least_squares_ok lsqr M b \<Longrightarrow> length (lsqr M b) = N * N \<and> mat_vec M (lsqr M b) = b"
proof -
  note sh = pair_system_shape(1,2) [OF row_stochastic_square [OF assms(1)] assms(4)]
  show "length (spsolve M b) = N * N \<and> mat_vec M (spsolve M b) = b" if "direct_ok spsolve M b"
    using that sh by (simp add: direct_ok_def)
  show "length (lsqr M b) = N * N \<and> mat_vec M (lsqr M b) = b" if l: "least_squares_ok lsqr M b"
  proof -
    obtain y where "length y = N * N" "mat_vec M y = b"
      using pair_system_solvable [OF assms] by blast
    then have "mat_vec M (lsqr M b) = b"
      using least_squares_exact [OF l] sh by simp
    then show ?thesis
      using l sh by (simp add: least_squares_ok_def)
  qed
qed

lemma reshape_solution:
  assumes "row_stochastic N A" "pair_system A \<mu> = (M, b)" "mat_vec M x = b"
  defines "\<phi> \<equiv> mat N N (\<lambda>a b. x ! (a + b * N))"
  shows "square N \<phi>" "pair_equations N (\<lambda>i j. A ! i ! j) \<mu> (\<lambda>a b. \<phi> ! a ! b)"
proof -
  show "square N \<phi>"
    by (simp add: \<phi>_def)
  have "pair_equations N (\<lambda>i j. A ! i ! j) \<mu> (\<lambda>a b. x ! (a + b * N))"
    using pair_system_solves_iff [OF row_stochastic_square [OF assms(1)] assms(2)] assms(3)
    by simp
  then show "pair_equations N (\<lambda>i j. A ! i ! j) \<mu> (\<lambda>a b. \<phi> ! a ! b)"
    using pair_equations_cong [of N "\<lambda>a b. \<phi> ! a ! b" "\<lambda>a b. x ! (a + b * N)"]
    by (simp add: \<phi>_def)
qed

lemma lower_spsolve: "lower ''spsolve'' = ''spsolve''"
  by code_simp

lemma lower_lsqr: "lower ''lsqr'' = ''lsqr''"
  by code_simp

lemma ibs_unfold:
  assumes "square N A" "pair_system A \<mu> = (M, b)"
  shows "lower s = ''spsolve'' \<Longrightarrow>
         identity_by_state_probabilities spsolve lsqr A \<mu> (PyStr s) =
           Inr (mat N N (\<lambda>a c. spsolve M b ! (a + c * N)))"
    and "lower s = ''lsqr'' \<Longrightarrow>
         identity_by_state_probabilities spsolve lsqr A \<mu> (PyStr s) =
           Inr (mat N N (\<lambda>a c. lsqr M b ! (a + c * N)))"
  using assms
  by (simp_all add: identity_by_state_probabilities_def square_nrows)

lemma ibs_result:
  assumes "row_stochastic N A" "0 < \<mu>" "\<mu> \<le> 1" "pair_system A \<mu> = (M, b)"
    and "lower s = ''spsolve'' \<and> direct_ok spsolve M b
         \<or> lower s = ''lsqr'' \<and> least_squares_ok lsqr M b"
  shows "\<exists>\<phi>. identity_by_state_probabilities spsolve lsqr A \<mu> (PyStr s) = Inr \<phi>
     \<and> square N \<phi> \<and> pair_equations N (\<lambda>i j. A ! i ! j) \<mu> (\<lambda>a b. \<phi> ! a ! b)"
  using assms(5)
proof
  assume a: "lower s = ''spsolve'' \<and> direct_ok spsolve M b"
  then have "mat_vec M (spsolve M b) = b"
    using solver_output(1) [OF assms(1-4)] by simp
  from reshape_solution [OF assms(1,4) this]
    ibs_unfold(1) [OF row_stochastic_square [OF assms(1)] assms(4), of s] a
  show ?thesis by simp
next
  assume a: "lower s = ''lsqr'' \<and> least_squares_ok lsqr M b"
  then have "mat_vec M (lsqr M b) = b"
    using solver_output(2) [OF assms(1-4)] by simp
  from reshape_solution [OF assms(1,4) this]
    ibs_unfold(2) [OF row_stochastic_square [OF assms(1)] assms(4), of s] a
  show ?thesis by simp
qed

subsection \<open>Diagonal, symmetry and recursion of the returned matrix\<close>

lemma matrix_eqI:
  assumes "square N \<phi>" "square N \<psi>" "\<And>a b. a < N \<Longrightarrow> b < N \<Longrightarrow> \<phi> ! a ! b = \<psi> ! a ! b"
  shows "\<phi> = \<psi>"
proof (rule nth_equalityI)
  show "length \<phi> = length \<psi>"
    using assms(1,2) by (simp add: square_length)
  fix a assume "a < length \<phi>"
  then have a: "a < N"
    using assms(1) by (simp add: square_length)
  show "\<phi> ! a = \<psi> ! a"
    using assms(3) [OF a] a by (intro nth_equalityI) (simp_all add: square_row [OF assms(1)] square_row [OF assms(2)])
qed

lemma pair_equations_matrix:
  assumes "row_stochastic N A" "0 < \<mu>" "\<mu> \<le> 1" "square N \<phi>"
    and "pair_equations N (\<lambda>i j. A ! i ! j) \<mu> (\<lambda>a b. \<phi> ! a ! b)"
  shows "unit_diagonal N \<phi>" "symmetric N \<phi>" "recursion_off_diagonal N A \<mu> \<phi>"
proof -
  note st = row_stochastic_nth [OF assms(1)]
  note sq = row_stochastic_square [OF assms(1)]
  show "unit_diagonal N \<phi>"
    using assms(5) by (simp add: unit_diagonal_def pair_equations_def list_all_iff)
  have sym: "\<phi> ! a ! b = \<phi> ! b ! a" if "a < N" "b < N" for a b
    by (rule pair_equations_symmetric [OF assms(2,3) st assms(5) that])
  then show "symmetric N \<phi>"
    by (simp add: symmetric_def list_all_iff)
  have rec: "\<phi> ! i ! j =
      \<mu> / 2 + ((1 - \<mu>) / 2) * (mat_mul A \<phi> ! i ! j + mat_T (mat_mul A \<phi>) ! i ! j)"
    if "i < N" "j < N" "i \<noteq> j" for i j
  proof -
    have 1: "mat_mul A \<phi> ! i ! j = (\<Sum>l<N. A ! i ! l * \<phi> ! l ! j)"
      using that by (simp add: mat_mul_square [OF sq assms(4)])
    have "mat_T (mat_mul A \<phi>) ! i ! j = (\<Sum>k<N. A ! j ! k * \<phi> ! k ! i)"
      using that by (simp add: mat_mul_square [OF sq assms(4)] mat_T_square [OF square_mat])
    also have "\<dots> = (\<Sum>k<N. A ! j ! k * \<phi> ! i ! k)"
      using that by (intro sum.cong refl) (simp add: sym)
    finally show ?thesis
      using assms(5) that by (simp add: 1 pair_equations_def)
  qed
  show "recursion_off_diagonal N A \<mu> \<phi>"
    unfolding recursion_off_diagonal_def list_all_iff
    using rec by (metis atLeastLessThan_iff set_upt)
qed

lemma ibs_modes_agree:
  assumes "row_stochastic N A" "0 < \<mu>" "\<mu> \<le> 1" "pair_system A \<mu> = (M, b)"
    and "direct_ok spsolve M b" "least_squares_ok lsqr M b"
  shows "identity_by_state_probabilities spsolve lsqr A \<mu> (PyStr ''spsolve'') =
         identity_by_state_probabilities spsolve lsqr A \<mu> (PyStr ''lsqr'')"
proof -
  obtain \<phi> where \<phi>: "identity_by_state_probabilities spsolve lsqr A \<mu> (PyStr ''spsolve'') = Inr \<phi>"
      "square N \<phi>" "pair_equations N (\<lambda>i j. A ! i ! j) \<mu> (\<lambda>a b. \<phi> ! a ! b)"
    using ibs_result [OF assms(1-4), of "''spsolve''" spsolve lsqr] assms(5) lower_spsolve
    by auto
  obtain \<psi> where \<psi>: "identity_by_state_probabilities spsolve lsqr A \<mu> (PyStr ''lsqr'') = Inr \<psi>"
      "square N \<psi>" "pair_equations N (\<lambda>i j. A ! i ! j) \<mu> (\<lambda>a b. \<psi> ! a ! b)"
    using ibs_result [OF assms(1-4), of "''lsqr''" spsolve lsqr] assms(6) lower_lsqr
    by auto
  have "\<phi> = \<psi>"
    by (rule matrix_eqI [OF \<phi>(2) \<psi>(2)])
      (rule pair_equations_unique [OF assms(2,3) row_stochastic_nth [OF assms(1)] \<phi>(3) \<psi>(3)])
  then show ?thesis
    by (simp add: \<phi>(1) \<psi>(1))
qed

text \<open>
  C3: let \<open>A\<close> be a row-stochastic \<open>N \<times> N\<close> matrix, \<open>0 < \<mu> \<le> 1\<close>, and \<open>(M, b)\<close> the system
  that \<^verbatim>\<open>identity_by_state_probabilities\<close> assembles. With the selector \<open>'spsolve'\<close> and a
  direct solver that returns a solution of \<open>M x = b\<close>, or the selector \<open>'lsqr'\<close> and a
  least-squares solver that returns a minimiser of the residual, the function returns an
  \<open>N \<times> N\<close> matrix \<open>\<phi>\<close> with \<open>\<phi>[i][i] = 1\<close> that satisfies
  \<open>\<phi> = \<mu>/2 + ((1 - \<mu>)/2)\<cdot>(A\<phi> + (A\<phi>)\<^sup>t)\<close> at every off-diagonal entry; and the two modes
  return the same matrix. (Exact arithmetic: equality, hence agreement within every
  tolerance.)
\<close>

theorem identity_by_state_recursion:
  assumes "row_stochastic N A" "0 < \<mu>" "\<mu> \<le> 1" "pair_system A \<mu> = (M, b)"
  shows "(lower s = ''spsolve'' \<and> direct_ok spsolve M b
          \<or> lower s = ''lsqr'' \<and> least_squares_ok lsqr M b \<longrightarrow>
            (\<exists>\<phi>. identity_by_state_probabilities spsolve lsqr A \<mu> (PyStr s) = Inr \<phi>
               \<and> square N \<phi> \<and> unit_diagonal N \<phi> \<and> recursion_off_diagonal N A \<mu> \<phi>))
     \<and> (direct_ok spsolve M b \<and> least_squares_ok lsqr M b \<longrightarrow>
           identity_by_state_probabilities spsolve lsqr A \<mu> (PyStr ''spsolve'') =
           identity_by_state_probabilities spsolve lsqr A \<mu> (PyStr ''lsqr''))"
proof (intro conjI impI)
  assume "lower s = ''spsolve'' \<and> direct_ok spsolve M b
          \<or> lower s = ''lsqr'' \<and> least_squares_ok lsqr M b"
  from ibs_result [OF assms this] obtain \<phi> where
    \<phi>: "identity_by_state_probabilities spsolve lsqr A \<mu> (PyStr s) = Inr \<phi>"
      "square N \<phi>" "pair_equations N (\<lambda>i j. A ! i ! j) \<mu> (\<lambda>a b. \<phi> ! a ! b)"
    by blast
  from pair_equations_matrix [OF assms(1-3) \<phi>(2,3)] \<phi>(1,2)
  show "\<exists>\<phi>. identity_by_state_probabilities spsolve lsqr A \<mu> (PyStr s) = Inr \<phi>
      \<and> square N \<phi> \<and> unit_diagonal N \<phi> \<and> recursion_off_diagonal N A \<mu> \<phi>"
    by blast
next
  assume "direct_ok spsolve M b \<and> least_squares_ok lsqr M b"
  then show "identity_by_state_probabilities spsolve lsqr A \<mu> (PyStr ''spsolve'') =
      identity_by_state_probabilities spsolve lsqr A \<mu> (PyStr ''lsqr'')"
    using ibs_modes_agree [OF assms] by blast
qed

text \<open>
  C10: under the same assumptions the matrix returned in either solver mode is symmetric.
  The pair equations are invariant under swapping the two indices and have only one
  solution, so the solution equals its transpose.
\<close>

theorem identity_by_state_symmetric:
  assumes "row_stochastic N A" "0 < \<mu>" "\<mu> \<le> 1" "pair_system A \<mu> = (M, b)"
    and "lower s = ''spsolve'' \<and> direct_ok spsolve M b
         \<or> lower s = ''lsqr'' \<and> least_squares_ok lsqr M b"
  shows "\<exists>\<phi>. identity_by_state_probabilities spsolve lsqr A \<mu> (PyStr s) = Inr \<phi>
           \<and> square N \<phi> \<and> symmetric N \<phi>"
proof -
  from ibs_result [OF assms] obtain \<phi> where
    \<phi>: "identity_by_state_probabilities spsolve lsqr A \<mu> (PyStr s) = Inr \<phi>"
      "square N \<phi>" "pair_equations N (\<lambda>i j. A ! i ! j) \<mu> (\<lambda>a b. \<phi> ! a ! b)"
    by blast
  from pair_equations_matrix(2) [OF assms(1-3) \<phi>(2,3)] \<phi>(1,2)
  show ?thesis by blast
qed

subsection \<open>The walk on two nodes\<close>

lemma row_stochastic_two: "row_stochastic 2 A_two"
  by code_simp

lemma pair_system_two: "pair_system A_two (1 / 2) = (M_two, b_two)"
  by code_simp

lemma direct_ok_two: "direct_ok solver_two M_two b_two"
  by code_simp

lemma least_squares_ok_two: "least_squares_ok solver_two M_two b_two"
proof (rule exact_least_squares)
  show "length (solver_two M_two b_two) = length b_two"
    "mat_vec M_two (solver_two M_two b_two) = b_two" "length M_two = length b_two"
    by code_simp+
qed

lemma ibs_two:
  "identity_by_state_probabilities solver_two solver_two A_two (1 / 2) (PyStr ''spsolve'') =
     Inr [[1, 3 / 4], [3 / 4, 1]]"
  "identity_by_state_probabilities solver_two solver_two A_two (1 / 2) (PyStr ''lsqr'') =
     Inr [[1, 3 / 4], [3 / 4, 1]]"
  by code_simp+

theorem identity_by_state_recursion_witness:
  "row_stochastic 2 A_two \<and> (0 :: real) < 1 / 2 \<and> (1 / 2 :: real) \<le> 1
   \<and> pair_system A_two (1 / 2) = (M_two, b_two)
   \<and> direct_ok solver_two M_two b_two \<and> least_squares_ok solver_two M_two b_two
   \<and> identity_by_state_probabilities solver_two solver_two A_two (1 / 2) (PyStr ''spsolve'') =
       Inr [[1, 3 / 4], [3 / 4, 1]]
   \<and> identity_by_state_probabilities solver_two solver_two A_two (1 / 2) (PyStr ''lsqr'') =
       Inr [[1, 3 / 4], [3 / 4, 1]]
   \<and> unit_diagonal 2 [[1, 3 / 4], [3 / 4, 1]]
   \<and> recursion_off_diagonal 2 A_two (1 / 2) [[1, 3 / 4], [3 / 4, 1]]"
proof -
  have mu: "(0 :: real) < 1 / 2" "(1 / 2 :: real) \<le> 1"
    by simp_all
  note t = identity_by_state_recursion [OF row_stochastic_two mu pair_system_two,
      of "''spsolve''" solver_two solver_two]
  from t [THEN conjunct1] lower_spsolve direct_ok_two
  have "unit_diagonal 2 [[1, 3 / 4], [3 / 4, 1]]
      \<and> recursion_off_diagonal 2 A_two (1 / 2) [[1, 3 / 4], [3 / 4, 1]]"
    by (auto simp: ibs_two(1))
  then show ?thesis
    using row_stochastic_two mu pair_system_two direct_ok_two least_squares_ok_two ibs_two
    by simp
qed

theorem identity_by_state_symmetric_witness:
  "row_stochastic 2 A_two \<and> (0 :: real) < 1 / 2 \<and> (1 / 2 :: real) \<le> 1
   \<and> pair_system A_two (1 / 2) = (M_two, b_two)
   \<and> lower ''lsqr'' = ''lsqr'' \<and> least_squares_ok solver_two M_two b_two
   \<and> identity_by_state_probabilities solver_two solver_two A_two (1 / 2) (PyStr ''lsqr'') =
       Inr [[1, 3 / 4], [3 / 4, 1]]
   \<and> symmetric 2 [[1, 3 / 4], [3 / 4, 1]]"
proof -
  have mu: "(0 :: real) < 1 / 2" "(1 / 2 :: real) \<le> 1"
    by simp_all
  have "lower ''lsqr'' = ''spsolve'' \<and> direct_ok solver_two M_two b_two
      \<or> lower ''lsqr'' = ''lsqr'' \<and> least_squares_ok solver_two M_two b_two"
    using lower_lsqr least_squares_ok_two by simp
  from identity_by_state_symmetric [OF row_stochastic_two mu pair_system_two this]
  have "symmetric 2 [[1, 3 / 4], [3 / 4, 1]]"
    by (auto simp: ibs_two(2))
  then show ?thesis
    using row_stochastic_two mu pair_system_two lower_lsqr least_squares_ok_two ibs_two
    by simp
qed


section \<open>The orchestrators\<close>

subsection \<open>Order and length of the results\<close>

lemma parallel_Inr_iff:
  "parallel f xs = Inr ys \<longleftrightarrow>
     length ys = length xs \<and> (\<forall>k<length xs. f (xs ! k) = Inr (ys ! k))"
proof (induction xs arbitrary: ys)
  case Nil
  then show ?case by auto
next
  case (Cons x xs)
  show ?case
  proof (cases ys)
    case Nil
    then show ?thesis
      by (auto simp: bind_err_def split: sum.splits)
  next
    case (Cons y ys')
    have "parallel f (x # xs) = Inr (y # ys') \<longleftrightarrow> f x = Inr y \<and> parallel f xs = Inr ys'"
      by (auto simp: bind_err_def split: sum.splits)
    also have "\<dots> \<longleftrightarrow> f x = Inr y \<and> length ys' = length xs
        \<and> (\<forall>k<length xs. f (xs ! k) = Inr (ys' ! k))"
      by (simp add: Cons.IH)
    also have "\<dots> \<longleftrightarrow> length (y # ys') = length (x # xs)
        \<and> (\<forall>k<length (x # xs). f ((x # xs) ! k) = Inr ((y # ys') ! k))"
      by (auto simp: nth_Cons split: nat.splits)
    finally show ?thesis
      using Cons by simp
  qed
qed

lemma run_calculations_aligned:
  assumes "run_calculations spsolve lsqr g b c mutation_rates solver = Inr (ffs, pps)"
  shows "length ffs = length mutation_rates \<and> length pps = length mutation_rates
     \<and> (\<forall>k<length mutation_rates.
           run_single_calculation spsolve lsqr g b c solver (mutation_rates ! k)
             = Inr (ffs ! k, pps ! k))"
proof -
  obtain rs where rs: "parallel (run_single_calculation spsolve lsqr g b c solver) mutation_rates = Inr rs"
    and out: "ffs = map fst rs" "pps = map snd rs"
    using assms by (auto simp: run_calculations_def bind_err_def split: sum.splits if_splits)
  from rs have "length rs = length mutation_rates"
    and "\<forall>k<length mutation_rates.
      run_single_calculation spsolve lsqr g b c solver (mutation_rates ! k) = Inr (rs ! k)"
    by (simp_all add: parallel_Inr_iff)
  then show ?thesis
    by (simp add: out)
qed

text \<open>
  C9 fails on the empty sequence of mutation rates: \<^verbatim>\<open>run_calculations\<close> raises an IndexError
  where the claim (and the docstring: one entry for each mutation rate) has it return two
  empty sequences. On a non-empty sequence the results are aligned with the inputs, as
  \<open>run_calculations_aligned\<close> shows.
\<close>

theorem run_calculations_empty:
  "run_calculations spsolve lsqr g b c [] solver = Inl IndexError"
  by (simp add: run_calculations_def bind_err_def)


lemma set_weigh: "(r, w) \<in> set (weigh v m) \<longleftrightarrow> (\<exists>w'. (r, w') \<in> set m \<and> w = v * w')"
  by (induction m) (auto simp: weigh_def)

lemma bind_r_Nil [simp]: "bind_r [] f = []"
  by (simp add: bind_r_def)

lemma bind_r_Cons_Inl [simp]: "bind_r ((Inl e, v) # m) f = (Inl e, v) # bind_r m f"
  by (simp add: bind_r_def)

lemma bind_r_Cons_Inr [simp]: "bind_r ((Inr x, v) # m) f = weigh v (f x) @ bind_r m f"
  by (simp add: bind_r_def)

lemma bind_r_outcome:
  "(r, w) \<in> set (bind_r m f) \<longleftrightarrow>
     (\<exists>e. r = Inl e \<and> (Inl e, w) \<in> set m)
     \<or> (\<exists>x v w'. (Inr x, v) \<in> set m \<and> (r, w') \<in> set (f x) \<and> w = v * w')"
proof (induction m)
  case Nil
  show ?case by simp
next
  case (Cons q m)
  obtain q' v where q: "q = (q', v)" by (cases q)
  show ?case
  proof (cases q')
    case (Inl e)
    show ?thesis
      unfolding q Inl bind_r_Cons_Inl set_simps insert_iff Cons.IH by blast
  next
    case (Inr x)
    show ?thesis
      unfolding q Inr bind_r_Cons_Inr set_append Un_iff set_weigh set_simps insert_iff Cons.IH
      by blast
  qed
qed

lemma bind_r_Inr_outcome:
  assumes "(Inr z, w) \<in> set (bind_r m f)"
  obtains x v w' where "(Inr x, v) \<in> set m" "(Inr z, w') \<in> set (f x)"
  using assms unfolding bind_r_outcome by blast

lemma bind_r_nonempty:
  assumes "m \<noteq> []" "\<And>x. f x \<noteq> []"
  shows "bind_r m f \<noteq> []"
proof (cases m)
  case Nil
  with assms(1) show ?thesis by simp
next
  case (Cons q m')
  obtain r w where q: "q = (r, w)" by (cases q)
  show ?thesis
    using assms(2) by (cases r) (simp_all add: Cons q bind_r_def weigh_def)
qed

lemma parallel_r_aligned:
  "(Inr ys, w) \<in> set (parallel_r f xs) \<Longrightarrow>
     length ys = length xs \<and> (\<forall>k<length xs. \<exists>v. (Inr (ys ! k), v) \<in> set (f (xs ! k)))"
proof (induction xs arbitrary: ys w)
  case Nil
  then show ?case by (simp add: return_r_def)
next
  case (Cons x xs)
  from Cons.prems
  have "(Inr ys, w) \<in> set (bind_r (f x) (\<lambda>y. bind_r (parallel_r f xs) (\<lambda>ys. return_r (y # ys))))"
    by simp
  then obtain y v w' where y: "(Inr y, v) \<in> set (f x)"
    and rest: "(Inr ys, w') \<in> set (bind_r (parallel_r f xs) (\<lambda>ys. return_r (y # ys)))"
    by (rule bind_r_Inr_outcome)
  from rest obtain ys' v' w'' where ys': "(Inr ys', v') \<in> set (parallel_r f xs)"
    and "(Inr ys, w'') \<in> set (return_r (y # ys'))"
    by (rule bind_r_Inr_outcome)
  then have eq: "ys = y # ys'"
    by (simp add: return_r_def)
  from Cons.IH [OF ys'] have ih: "length ys' = length xs"
    "\<And>k. k < length xs \<Longrightarrow> \<exists>v. (Inr (ys' ! k), v) \<in> set (f (xs ! k))"
    by simp_all
  show ?case
  proof (intro conjI allI impI)
    show "length ys = length (x # xs)"
      by (simp add: eq ih(1))
    fix k assume "k < length (x # xs)"
    then show "\<exists>v. (Inr (ys ! k), v) \<in> set (f ((x # xs) ! k))"
      using y ih(2) by (cases k) (auto simp: eq)
  qed
qed

lemma run_simulations_aligned:
  assumes "(Inr ys, w) \<in> set (run_simulations g sg b c mutation_rates si n t)"
  shows "length ys = length mutation_rates
     \<and> (\<forall>k<length mutation_rates.
          \<exists>v. (Inr (ys ! k), v) \<in> set (run_single_simulation g sg b c si n t (mutation_rates ! k)))"
  using assms unfolding run_simulations_def by (rule parallel_r_aligned)

subsection \<open>Where the arguments are validated\<close>

lemma return_r_nonempty [simp]: "return_r x \<noteq> []"
  by (simp add: return_r_def)

lemma randint_nonempty [simp]: "randint n \<noteq> []"
  by (cases n) (simp_all add: randint_def raise_r_def)

lemma random_state_nonempty: "random_state n \<noteq> []"
proof (induction n)
  case 0
  show ?case by simp
next
  case (Suc n)
  have "bind_r (random_state n) (\<lambda>xs. return_r (int x # xs)) \<noteq> []" for x
    by (rule bind_r_nonempty [OF Suc]) simp
  then have "bind_r (randint 2) (\<lambda>x. bind_r (random_state n) (\<lambda>xs. return_r (int x # xs))) \<noteq> []"
    by (rule bind_r_nonempty [OF randint_nonempty])
  then show ?case
    by simp
qed

lemma bind_r_cases:
  assumes "(r, w) \<in> set (bind_r m f)"
  obtains (raised) e where "r = Inl e" "(Inl e, w) \<in> set m"
    | (ran) x v w' where "(Inr x, v) \<in> set m" "(r, w') \<in> set (f x)"
  using assms bind_r_outcome [of r w m f] by blast

lemma random_state_length:
  "(r, w) \<in> set (random_state n) \<Longrightarrow> \<exists>state. r = Inr state \<and> length state = n"
proof (induction n arbitrary: r w)
  case 0
  then show ?case by (simp add: return_r_def)
next
  case (Suc n)
  let ?tail = "\<lambda>x. bind_r (random_state n) (\<lambda>xs. return_r (int x # xs))"
  have tail: "\<exists>state. q = Inr state \<and> length state = Suc n" if "(q, v) \<in> set (?tail x)" for q v x
    using that
  proof (cases rule: bind_r_cases)
    case (raised e)
    then show ?thesis using Suc.IH by blast
  next
    case (ran xs u w')
    from Suc.IH [OF ran(1)] have "length xs = n" by simp
    moreover from ran(2) have "q = Inr (int x # xs)" by (simp add: return_r_def)
    ultimately show ?thesis by simp
  qed
  from Suc.prems have "(r, w) \<in> set (bind_r (randint 2) ?tail)"
    by simp
  then show ?case
  proof (cases rule: bind_r_cases)
    case (raised e)
    then show ?thesis by (auto simp: randint_def)
  next
    case (ran x u w')
    then show ?thesis using tail by blast
  qed
qed


lemma bind_r_raises:
  assumes "m \<noteq> []" "\<And>r w. (r, w) \<in> set m \<Longrightarrow> r = Inl e"
  shows "bind_r m f \<noteq> []" "\<And>r w. (r, w) \<in> set (bind_r m f) \<Longrightarrow> r = Inl e"
proof -
  obtain q v m' where m: "m = (q, v) # m'"
    using assms(1) by (cases m) auto
  then have "q = Inl e"
    using assms(2) [of q v] by simp
  then show "bind_r m f \<noteq> []"
    by (simp add: m)
  fix r w assume "(r, w) \<in> set (bind_r m f)"
  then show "r = Inl e"
  proof (cases rule: bind_r_cases)
    case (raised e')
    then show ?thesis using assms(2) by blast
  next
    case (ran x v w')
    then show ?thesis using assms(2) [of "Inr x" v] by simp
  qed
qed

lemma bind_r_then_raises:
  assumes "m \<noteq> []" "\<And>r w. (r, w) \<in> set m \<Longrightarrow> \<exists>x. r = Inr x \<and> P x"
    and "\<And>x. P x \<Longrightarrow> f x = [(Inl e, 1)]"
  shows "bind_r m f \<noteq> []" "\<And>r w. (r, w) \<in> set (bind_r m f) \<Longrightarrow> r = Inl e"
proof -
  obtain q v m' where m: "m = (q, v) # m'"
    using assms(1) by (cases m) auto
  then obtain x where "q = Inr x" "P x"
    using assms(2) [of q v] by auto
  then show "bind_r m f \<noteq> []"
    by (simp add: m assms(3) weigh_def)
  fix r w assume "(r, w) \<in> set (bind_r m f)"
  then show "r = Inl e"
  proof (cases rule: bind_r_cases)
    case (raised e')
    then show ?thesis using assms(2) by blast
  next
    case (ran x v w')
    then have "P x" using assms(2) [of "Inr x" v] by simp
    then show ?thesis using ran(2) by (simp add: assms(3))
  qed
qed

lemma init_invalid_label:
  assumes "length state = number_of_nodes g"
    and "\<not> is_str sg \<or> lower (str_of sg) \<notin> set [''ff'', ''pp'']"
  shows "init g state sg b c mr si = Inl (if is_str sg then ValueError else TypeError)"
  using assms by (auto simp: init_def)

lemma run_single_simulation_invalid_label:
  assumes "\<not> is_str sg \<or> lower (str_of sg) \<notin> set [''ff'', ''pp'']"
  shows "run_single_simulation g sg b c si n t rate \<noteq> []"
    and "\<And>r w. (r, w) \<in> set (run_single_simulation g sg b c si n t rate) \<Longrightarrow>
           r = Inl (if is_str sg then ValueError else TypeError)"
proof -
  let ?e = "if is_str sg then ValueError else TypeError"
  let ?f = "\<lambda>state.
     bind_r (lift_r (init g state sg b c (PyFloat rate) si)) (\<lambda>pop.
     bind_r (update_population pop t n) (\<lambda>(pop', mean_frequencies).
       lift_r (np_mean mean_frequencies)))"
  have f: "?f state = [(Inl ?e, 1)]" if "length state = number_of_nodes g" for state
    by (simp only: init_invalid_label [OF that assms] bind_lift_Inl)
  have st: "\<exists>x. r = Inr x \<and> length x = number_of_nodes g"
    if "(r, w) \<in> set (random_state (number_of_nodes g))" for r w
    using random_state_length [OF that] .
  show "run_single_simulation g sg b c si n t rate \<noteq> []"
    unfolding run_single_simulation_def
    by (rule bind_r_then_raises(1) [OF random_state_nonempty st f])
  show "r = Inl ?e" if "(r, w) \<in> set (run_single_simulation g sg b c si n t rate)" for r w
    by (rule bind_r_then_raises(2) [OF random_state_nonempty st f
          that [unfolded run_single_simulation_def]])
qed

lemma run_simulations_invalid_label:
  assumes "rates \<noteq> []" "\<not> is_str sg \<or> lower (str_of sg) \<notin> set [''ff'', ''pp'']"
  shows "run_simulations g sg b c rates si n t \<noteq> []"
    and "list_all (\<lambda>out. fst out = Inl (if is_str sg then ValueError else TypeError))
           (run_simulations g sg b c rates si n t)"
proof -
  obtain rate rest where rates: "rates = rate # rest"
    using assms(1) by (cases rates) auto
  note single = run_single_simulation_invalid_label [OF assms(2),
      where g = g and b = b and c = c and si = si and n = n and t = t and rate = rate]
  have eq: "run_simulations g sg b c rates si n t =
      bind_r (run_single_simulation g sg b c si n t rate)
        (\<lambda>y. bind_r (parallel_r (run_single_simulation g sg b c si n t) rest)
                (\<lambda>ys. return_r (y # ys)))"
    by (simp add: run_simulations_def rates)
  show "run_simulations g sg b c rates si n t \<noteq> []"
    unfolding eq by (rule bind_r_raises(1) [OF single])
  have "r = Inl (if is_str sg then ValueError else TypeError)"
    if "(r, w) \<in> set (run_simulations g sg b c rates si n t)" for r w
    by (rule bind_r_raises(2) [OF single that [unfolded eq]])
  then show "list_all (\<lambda>out. fst out = Inl (if is_str sg then ValueError else TypeError))
           (run_simulations g sg b c rates si n t)"
    unfolding list_all_iff by (metis prod.collapse)
qed


lemma identity_by_state_invalid_solver:
  assumes "\<not> is_str solver \<or> lower (str_of solver) \<notin> set [''spsolve'', ''lsqr'']"
  shows "identity_by_state_probabilities spsolve lsqr A \<mu> solver
     = Inl (if is_str solver then ValueError else TypeError)"
  using assms by (auto simp: identity_by_state_probabilities_def Let_def case_prod_unfold)

lemma random_walk_probabilities_nonempty:
  assumes "g \<noteq> []"
  shows "\<exists>w A e d. random_walk_probabilities g = Inr (w, A, e, d)"
  using assms
  by (simp add: random_walk_probabilities_def adjacency_matrix_def bind_err_def Let_def)

lemma run_single_calculation_invalid_solver:
  assumes "g \<noteq> []"
    and "\<not> is_str solver \<or> lower (str_of solver) \<notin> set [''spsolve'', ''lsqr'']"
  shows "run_single_calculation spsolve lsqr g b c solver \<mu>
     = Inl (if is_str solver then ValueError else TypeError)"
proof -
  obtain w A e d where rw: "random_walk_probabilities g = Inr (w, A, e, d)"
    using random_walk_probabilities_nonempty [OF assms(1)] by blast
  have "structure_coefficients spsolve lsqr g \<mu> solver
     = Inl (if is_str solver then ValueError else TypeError)"
    by (simp add: structure_coefficients_def rw bind_err_def Let_def
        identity_by_state_invalid_solver [OF assms(2)])
  then show ?thesis
    by (simp add: run_single_calculation_def bind_err_def)
qed

lemma run_calculations_invalid_solver:
  assumes "mutation_rates \<noteq> []" "g \<noteq> []"
    and "\<not> is_str solver \<or> lower (str_of solver) \<notin> set [''spsolve'', ''lsqr'']"
  shows "run_calculations spsolve lsqr g b c mutation_rates solver
     = Inl (if is_str solver then ValueError else TypeError)"
proof -
  obtain rate rest where rates: "mutation_rates = rate # rest"
    using assms(1) by (cases mutation_rates) auto
  show ?thesis
    by (simp add: run_calculations_def rates bind_err_def
        run_single_calculation_invalid_solver [OF assms(2,3)])
qed

lemma run_simulations_empty:
  "run_simulations g sg b c [] si n t = [(Inr [], 1)]"
  by (simp add: run_simulations_def return_r_def)

lemma lower_bad: "lower ''bad'' = ''bad''"
  by code_simp

text \<open>
  C8, as stated, fails: neither orchestrator looks at its arguments before the tasks. The
  label \<open>''good''\<close> is invalid (the constructor rejects it with a ValueError), yet
  \<^verbatim>\<open>run_simulations\<close> on an empty sequence of mutation rates returns the empty sequence,
  with probability 1. The selector \<open>''bad''\<close> is invalid
  (\<^verbatim>\<open>identity_by_state_probabilities\<close> rejects it with a ValueError), yet
  \<^verbatim>\<open>run_calculations\<close> on an empty sequence of mutation rates does not raise that error: no
  task runs, and what is raised is the IndexError of the indexing after the tasks.
\<close>

theorem orchestrators_no_entry_validation:
  "init path2 [0, 1] (PyStr ''good'') 2 1 (PyFloat (1 / 2)) (PyFloat (1 / 10)) = Inl ValueError
   \<and> run_simulations path2 (PyStr ''good'') 2 1 [] (PyFloat (1 / 10)) 10 (Some 1) = [(Inr [], 1)]
   \<and> identity_by_state_probabilities (\<lambda>M b. b) (\<lambda>M b. b) [[0, 1], [1, 0]] (1 / 2) (PyStr ''bad'')
       = Inl ValueError
   \<and> run_calculations (\<lambda>M b. b) (\<lambda>M b. b) path2 2 1 [] (PyStr ''bad'') = Inl IndexError"
proof -
  have "init path2 [0, 1] (PyStr ''good'') 2 1 (PyFloat (1 / 2)) (PyFloat (1 / 10)) = Inl ValueError"
    by (simp add: init_def lower_good number_of_nodes_def path2_def)
  moreover have "run_simulations path2 (PyStr ''good'') 2 1 [] (PyFloat (1 / 10)) 10 (Some 1)
      = [(Inr [], 1)]"
    by (simp add: run_simulations_def return_r_def)
  moreover have "identity_by_state_probabilities (\<lambda>M b. b) (\<lambda>M b. b) [[0, 1], [1, 0]] (1 / 2)
      (PyStr ''bad'') = Inl ValueError"
    by (simp add: identity_by_state_probabilities_def Let_def case_prod_unfold lower_bad)
  moreover have "run_calculations (\<lambda>M b. b) (\<lambda>M b. b) path2 2 1 [] (PyStr ''bad'') = Inl IndexError"
    by (simp add: run_calculations_def bind_err_def)
  ultimately show ?thesis
    by blast
qed

text \<open>
  C8, amended: the orchestrators perform no validation of their own. The good-type label
  is validated by the \<^verbatim>\<open>Population\<close> constructor inside every task of
  \<^verbatim>\<open>run_simulations\<close>, the solver selector by \<^verbatim>\<open>identity_by_state_probabilities\<close> inside
  every task of \<^verbatim>\<open>run_calculations\<close>. On an empty sequence of mutation rates
  \<^verbatim>\<open>run_simulations\<close> returns the empty sequence whatever the label. On a non-empty
  sequence an invalid label makes every run of \<^verbatim>\<open>run_simulations\<close> fail, with a TypeError
  for a label that is not a string and a ValueError for a string that is not recognised;
  and an invalid selector makes \<^verbatim>\<open>run_calculations\<close>, on a graph with nodes, fail with a
  TypeError for a selector that is not a string and a ValueError for a string that is not
  recognised.
\<close>

theorem orchestrators_validate_in_tasks:
  "run_simulations g sg b c [] si n t = [(Inr [], 1)]
   \<and> (rates \<noteq> [] \<and> (\<not> is_str sg \<or> lower (str_of sg) \<notin> set [''ff'', ''pp'']) \<longrightarrow>
        run_simulations g sg b c rates si n t \<noteq> []
        \<and> list_all (\<lambda>out. fst out = Inl (if is_str sg then ValueError else TypeError))
            (run_simulations g sg b c rates si n t))
   \<and> (rates \<noteq> [] \<and> g \<noteq> []
        \<and> (\<not> is_str solver \<or> lower (str_of solver) \<notin> set [''spsolve'', ''lsqr'']) \<longrightarrow>
        run_calculations spsolve lsqr g b c rates solver
          = Inl (if is_str solver then ValueError else TypeError))"
proof (intro conjI impI)
  show "run_simulations g sg b c [] si n t = [(Inr [], 1)]"
    by (rule run_simulations_empty)
next
  assume "rates \<noteq> [] \<and> (\<not> is_str sg \<or> lower (str_of sg) \<notin> set [''ff'', ''pp''])"
  then have r: "rates \<noteq> []" and l: "\<not> is_str sg \<or> lower (str_of sg) \<notin> set [''ff'', ''pp'']"
    by blast+
  show "run_simulations g sg b c rates si n t \<noteq> []"
    by (rule run_simulations_invalid_label(1) [OF r l])
  show "list_all (\<lambda>out. fst out = Inl (if is_str sg then ValueError else TypeError))
      (run_simulations g sg b c rates si n t)"
    by (rule run_simulations_invalid_label(2) [OF r l])
next
  assume "rates \<noteq> [] \<and> g \<noteq> []
      \<and> (\<not> is_str solver \<or> lower (str_of solver) \<notin> set [''spsolve'', ''lsqr''])"
  then have r: "rates \<noteq> []" and g: "g \<noteq> []"
    and s: "\<not> is_str solver \<or> lower (str_of solver) \<notin> set [''spsolve'', ''lsqr'']"
    by blast+
  show "run_calculations spsolve lsqr g b c rates solver
      = Inl (if is_str solver then ValueError else TypeError)"
    by (rule run_calculations_invalid_solver [OF r g s])
qed

theorem orchestrators_validate_in_tasks_witness:
  "run_simulations path2 (PyStr ''good'') 2 1 [] (PyFloat (1 / 10)) 10 (Some 1) = [(Inr [], 1)]
   \<and> run_simulations path2 (PyStr ''good'') 2 1 [1 / 2] (PyFloat (1 / 10)) 10 (Some 1) \<noteq> []
   \<and> list_all (\<lambda>out. fst out = Inl ValueError)
       (run_simulations path2 (PyStr ''good'') 2 1 [1 / 2] (PyFloat (1 / 10)) 10 (Some 1))
   \<and> run_calculations (\<lambda>M b. b) (\<lambda>M b. b) path2 2 1 [1 / 2] (PyStr ''bad'') = Inl ValueError
   \<and> run_calculations (\<lambda>M b. b) (\<lambda>M b. b) path2 2 1 [1 / 2] (PyInt 0) = Inl TypeError"
proof -
  have p: "path2 \<noteq> []"
    by (simp add: path2_def)
  note sim = orchestrators_validate_in_tasks [where g = path2 and sg = "PyStr ''good''"
      and b = 2 and c = 1 and si = "PyFloat (1 / 10)" and n = 10 and t = "Some 1"
      and rates = "[1 / 2]" and spsolve = "\<lambda>M b. b" and lsqr = "\<lambda>M b. b"]
  have 1: "run_simulations path2 (PyStr ''good'') 2 1 [] (PyFloat (1 / 10)) 10 (Some 1)
      = [(Inr [], 1)]"
    using sim [where solver = "PyStr ''bad''"] by blast
  have 2: "run_simulations path2 (PyStr ''good'') 2 1 [1 / 2] (PyFloat (1 / 10)) 10 (Some 1) \<noteq> []
     \<and> list_all (\<lambda>out. fst out = Inl ValueError)
       (run_simulations path2 (PyStr ''good'') 2 1 [1 / 2] (PyFloat (1 / 10)) 10 (Some 1))"
    using sim [where solver = "PyStr ''bad''"] by (simp add: lower_good)
  have 3: "run_calculations (\<lambda>M b. b) (\<lambda>M b. b) path2 2 1 [1 / 2] (PyStr ''bad'') = Inl ValueError"
    using sim [where solver = "PyStr ''bad''"] p by (simp add: lower_bad)
  have 4: "run_calculations (\<lambda>M b. b) (\<lambda>M b. b) path2 2 1 [1 / 2] (PyInt 0) = Inl TypeError"
    using sim [where solver = "PyInt 0"] p by simp
  from 1 2 3 4 show ?thesis
    by blast
qed

end
